(* ===== verification/SEB_Prelude.thy ===== *)
theory SEB_Prelude
  imports Main "HOL-Library.Finite_Map" "HOL-Library.Word" "HOL-Library.Char_ord"
    "HOL-Library.List_Lexorder" "HOL-Library.Sublist"
begin

text \<open>
  The prelude of the development: how the effects of the Rust code are represented, and the
  generic facts the components share.

  A Rust operation that can fail returns \<open>'a res\<close>: \<open>Inl Panic\<close> for an unwinding panic (a slice
  out of range, an \<open>unwrap\<close> on nothing), \<open>Inl (Err msg)\<close> for an \<open>anyhow\<close> error, \<open>Inr v\<close> for a
  returned value. A \<open>HashMap\<close> or \<open>DashMap\<close> is a finite map; where the code iterates over one, the
  iteration order is unspecified by Rust, so the model takes it as an argument (\<open>iter_order\<close> says
  that it enumerates the keys once each).

  The interfaces several components share are locales: \<open>codec\<close> (an encoder with its partial
  decoder), \<open>append_log\<close> (a list that only grows at its end), \<open>indexed_log\<close> (a log read by a key) and \<open>keyed_store\<close> (a store indexed by
  a key of the stored value). Each is interpreted in the theories of the components.
\<close>

section \<open>Machine integers, time, failures\<close>

type_synonym u8 = "8 word"
type_synonym u16 = "16 word"
type_synonym u32 = "32 word"
type_synonym u64 = "64 word"

text \<open>A \<open>DateTime<Utc>\<close>, as nanoseconds since the epoch.\<close>

type_synonym timestamp = int

datatype failure = Panic | Err string

type_synonym 'a res = "failure + 'a"

named_theorems res_simps "evaluation of fallible computations"

fun res_bind :: "'a res \<Rightarrow> ('a \<Rightarrow> 'b res) \<Rightarrow> 'b res" where
  "res_bind (Inl e) f = Inl e"
| "res_bind (Inr a) f = f a"

declare res_bind.simps [res_simps]

lemma res_bind_Inr_iff:
  "res_bind r f = Inr b \<longleftrightarrow> (\<exists>a. r = Inr a \<and> f a = Inr b)"
  by (cases r) auto

lemma res_bind_Inl_iff:
  "res_bind r f = Inl e \<longleftrightarrow> r = Inl e \<or> (\<exists>a. r = Inr a \<and> f a = Inl e)"
  by (cases r) auto

text \<open>A \<open>for\<close> loop or iterator chain whose body can fail: it stops at the first failure.\<close>

fun res_map :: "('a \<Rightarrow> 'b res) \<Rightarrow> 'a list \<Rightarrow> 'b list res" where
  "res_map f [] = Inr []"
| "res_map f (x # xs) =
     res_bind (f x) (\<lambda>y. res_bind (res_map f xs) (\<lambda>ys. Inr (y # ys)))"

lemma res_map_Inr: "(\<And>x. x \<in> set xs \<Longrightarrow> f x = Inr (g x)) \<Longrightarrow> res_map f xs = Inr (map g xs)"
  by (induction xs) auto

lemma res_map_Inr_iff:
  "res_map f xs = Inr ys \<longleftrightarrow> list_all2 (\<lambda>x y. f x = Inr y) xs ys"
  by (induction xs arbitrary: ys) (auto simp: res_bind_Inr_iff list_all2_Cons1)

lemma res_map_defined_iff:
  "(\<exists>ys. res_map f xs = Inr ys) \<longleftrightarrow> (\<forall>x \<in> set xs. \<exists>y. f x = Inr y)"
  by (induction xs) (auto simp: res_bind_Inr_iff)

lemma res_map_InlE:
  assumes "res_map f xs = Inl e"
  obtains x where "x \<in> set xs" and "f x = Inl e"
  using assms by (induction xs) (auto simp: res_bind_Inl_iff)

section \<open>Hash maps\<close>

definition iter_order :: "'k list \<Rightarrow> ('k, 'v) fmap \<Rightarrow> bool" where
  "iter_order ord m \<longleftrightarrow> distinct ord \<and> set ord = fset (fmdom m)"

text \<open>The values of a map, in the given iteration order.\<close>

definition hm_values :: "'k list \<Rightarrow> ('k, 'v) fmap \<Rightarrow> 'v list" where
  "hm_values ord m = List.map_filter (fmlookup m) ord"

definition hm_len :: "('k, 'v) fmap \<Rightarrow> nat" where
  "hm_len m = fcard (fmdom m)"

lemma hm_len_upd:
  "hm_len (fmupd k v m) = (if fmlookup m k = None then Suc (hm_len m) else hm_len m)"
proof (cases "fmlookup m k")
  case None
  then have "k |\<notin>| fmdom m" by (simp add: fmdom_notI)
  then show ?thesis by (simp add: hm_len_def None fcard_finsert_if)
next
  case (Some w)
  then have "k |\<in>| fmdom m" by (rule fmdomI)
  then show ?thesis by (simp add: hm_len_def Some fcard_finsert_if)
qed

lemma hm_len_empty [simp]: "hm_len fmempty = 0"
  by (simp add: hm_len_def)

lemma set_hm_values:
  "iter_order ord m \<Longrightarrow> set (hm_values ord m) = {v. \<exists>k. fmlookup m k = Some v}"
  by (force simp: hm_values_def iter_order_def List.map_filter_def fmlookup_dom_iff image_iff)

lemma map_filter_total:
  "(\<And>x. x \<in> set xs \<Longrightarrow> f x = Some (g x)) \<Longrightarrow> List.map_filter f xs = map g xs"
  by (induction xs) (auto simp: map_filter_simps)

lemma hm_values_eq_map:
  "set ord \<subseteq> fset (fmdom m) \<Longrightarrow> hm_values ord m = map (\<lambda>k. the (fmlookup m k)) ord"
  unfolding hm_values_def
  by (rule map_filter_total) (auto simp: fmlookup_dom_iff)

lemma length_hm_values: "iter_order ord m \<Longrightarrow> length (hm_values ord m) = hm_len m"
  unfolding iter_order_def hm_len_def fcard.rep_eq
  by (auto simp: hm_values_eq_map distinct_card [symmetric])

lemma iter_order_empty [simp]: "iter_order ord fmempty \<longleftrightarrow> ord = []"
  by (auto simp: iter_order_def)

text \<open>
  A map of vectors: \<open>m.entry(k).or_insert_with(Vec::new).push(v)\<close>, and the vector a key has.
\<close>

definition mm_get :: "('k, 'v list) fmap \<Rightarrow> 'k \<Rightarrow> 'v list" where
  "mm_get m k = (case fmlookup m k of None \<Rightarrow> [] | Some vs \<Rightarrow> vs)"

definition mm_push :: "'k \<Rightarrow> 'v \<Rightarrow> ('k, 'v list) fmap \<Rightarrow> ('k, 'v list) fmap" where
  "mm_push k v m = fmupd k (mm_get m k @ [v]) m"

lemma mm_get_empty [simp]: "mm_get fmempty k = []"
  by (simp add: mm_get_def)

lemma mm_get_push [simp]: "mm_get (mm_push k v m) k' = mm_get m k' @ (if k' = k then [v] else [])"
  by (simp add: mm_get_def mm_push_def)

lemma fmdom_push [simp]: "fmdom (mm_push k v m) = finsert k (fmdom m)"
  by (simp add: mm_push_def)

lemma fmlookup_push:
  "fmlookup (mm_push k v m) k' = (if k' = k then Some (mm_get m k @ [v]) else fmlookup m k')"
  by (simp add: mm_push_def)

lemma mm_get_fold_push:
  "mm_get (fold (\<lambda>x. mm_push (key x) (val x)) xs m) k =
     mm_get m k @ map val (filter (\<lambda>x. key x = k) xs)"
  by (induction xs arbitrary: m) auto

lemma fmdom_fold_push:
  "fset (fmdom (fold (\<lambda>x. mm_push (key x) (val x)) xs m)) = fset (fmdom m) \<union> key ` set xs"
  by (induction xs arbitrary: m) auto

section \<open>Lists\<close>

lemma find_rev_snoc:
  "List.find P (rev (xs @ [x])) = (if P x then Some x else List.find P (rev xs))"
  by simp

lemma find_append:
  "List.find P (xs @ ys) = (case List.find P xs of None \<Rightarrow> List.find P ys | Some x \<Rightarrow> Some x)"
  by (induction xs) auto

lemma find_SomeD: "List.find P xs = Some x \<Longrightarrow> x \<in> set xs \<and> P x"
  by (auto simp: find_Some_iff in_set_conv_nth)

lemma find_unique:
  assumes "distinct (map f xs)" and "x \<in> set xs"
  shows "List.find (\<lambda>y. f y = f x) xs = Some x"
  using assms by (induction xs) auto

lemma sorted_remdups_adj_strict:
  "sorted xs \<Longrightarrow> sorted_wrt (<) (remdups_adj (xs :: 'a :: linorder list))"
proof (induction xs rule: remdups_adj.induct)
  case (3 x y ys)
  then show ?case by (cases "x = y") auto
qed simp_all

text \<open>Truncated quotients add up to at most the truncated quotient of the sum.\<close>

lemma sum_list_div_le:
  assumes "0 < (m :: int)"
  shows "(\<Sum>x\<leftarrow>xs. x div m) \<le> sum_list xs div m"
proof (induction xs)
  case (Cons x xs)
  have "x div m + sum_list xs div m \<le> (x + sum_list xs) div m"
    using assms by (simp add: div_add1_eq [of x] pos_imp_zdiv_nonneg_iff)
  with Cons show ?case by simp
qed simp

section \<open>Interfaces\<close>

subsection \<open>An encoding with a partial decoder\<close>

locale codec =
  fixes enc :: "'a \<Rightarrow> 'c"
    and dec :: "'c \<Rightarrow> 'a option"
    and wf :: "'a \<Rightarrow> bool"
  assumes dec_enc: "wf x \<Longrightarrow> dec (enc x) = Some x"
    and dec_SomeD: "dec c = Some x \<Longrightarrow> enc x = c \<and> wf x"
begin

lemma dec_Some_iff: "dec c = Some x \<longleftrightarrow> wf x \<and> c = enc x"
  by (auto simp: dec_enc dest: dec_SomeD)

lemma enc_inj: "wf x \<Longrightarrow> wf y \<Longrightarrow> enc x = enc y \<Longrightarrow> x = y"
  by (metis dec_enc option.inject)

lemma dec_None_iff: "dec c = None \<longleftrightarrow> (\<forall>x. wf x \<longrightarrow> enc x \<noteq> c)"
  by (metis dec_enc dec_SomeD not_None_eq)

lemma filter_enc:
  assumes "\<And>y. y \<in> set ys \<Longrightarrow> wf (f y)" and "wf x"
  shows "filter (\<lambda>y. enc (f y) = enc x) ys = filter (\<lambda>y. f y = x) ys"
  using assms by (auto intro!: filter_cong dest: enc_inj)

end

subsection \<open>A log that only grows at its end\<close>

locale append_log =
  fixes push :: "'e \<Rightarrow> 's \<Rightarrow> 's"
    and entries :: "'s \<Rightarrow> 'e list"
  assumes entries_push: "entries (push e s) = entries s @ [e]"
begin

lemma entries_fold: "entries (fold push es s) = entries s @ es"
  by (induction es arbitrary: s) (auto simp: entries_push)

lemma entries_prefix: "prefix (entries s) (entries (fold push es s))"
  by (simp add: entries_fold)

lemma entries_filter:
  "filter P (entries (fold push es s)) = filter P (entries s) @ filter P es"
  by (simp add: entries_fold)

lemma all_entries:
  "(\<forall>e \<in> set (entries (fold push es s)). P e) \<longleftrightarrow>
     (\<forall>e \<in> set (entries s). P e) \<and> (\<forall>e \<in> set es. P e)"
  by (auto simp: entries_fold)

end

subsection \<open>A log read by key\<close>

locale indexed_log =
  fixes push :: "'e \<Rightarrow> 's \<Rightarrow> 's"
    and query :: "'s \<Rightarrow> 'k \<Rightarrow> 'v list"
    and key :: "'e \<Rightarrow> 'k"
    and val :: "'e \<Rightarrow> 'v"
  assumes query_push: "query (push e s) k = query s k @ (if key e = k then [val e] else [])"
begin

lemma query_fold: "query (fold push es s) k = query s k @ map val (filter (\<lambda>e. key e = k) es)"
  by (induction es arbitrary: s) (auto simp: query_push)

lemma query_prefix: "prefix (query s k) (query (fold push es s) k)"
  by (simp add: query_fold)

end

text \<open>Selecting the entries of a growing log by a key gives such a view of it.\<close>

locale keyed_log = append_log push entries
  for push :: "'e \<Rightarrow> 's \<Rightarrow> 's" and entries :: "'s \<Rightarrow> 'e list" +
  fixes key :: "'e \<Rightarrow> 'k"

sublocale keyed_log \<subseteq> by_key: indexed_log push "\<lambda>s k. filter (\<lambda>e. key e = k) (entries s)" key id
  by unfold_locales (simp add: entries_push)

subsection \<open>A store indexed by a key of the stored value\<close>

locale keyed_store =
  fixes put :: "'v \<Rightarrow> 's \<Rightarrow> 's"
    and get :: "'s \<Rightarrow> 'k \<Rightarrow> 'v option"
    and key :: "'v \<Rightarrow> 'k"
  assumes get_put: "get (put v s) k = (if k = key v then Some v else get s k)"
begin

definition keyed :: "'s \<Rightarrow> bool" where
  "keyed s \<longleftrightarrow> (\<forall>k v. get s k = Some v \<longrightarrow> key v = k)"

lemma keyed_put: "keyed s \<Longrightarrow> keyed (put v s)"
  by (simp add: keyed_def get_put)

lemma keyed_fold: "keyed s \<Longrightarrow> keyed (fold put vs s)"
  by (induction vs arbitrary: s) (auto simp: keyed_put)

lemma get_fold:
  "get (fold put vs s) k =
     (case List.find (\<lambda>v. key v = k) (rev vs) of None \<Rightarrow> get s k | Some v \<Rightarrow> Some v)"
proof (induction vs arbitrary: s)
  case Nil
  then show ?case by simp
next
  case (Cons v vs)
  then show ?case
    by (auto simp: find_append get_put split: option.splits)
qed

lemma get_fold_distinct:
  assumes "distinct (map key vs)" and "v \<in> set vs"
  shows "get (fold put vs s) (key v) = Some v"
proof -
  from assms(1) have "distinct (map key (rev vs))" by (simp add: rev_map [symmetric])
  with assms(2) show ?thesis by (simp add: get_fold find_unique)
qed

lemma get_fold_fresh: "k \<notin> key ` set vs \<Longrightarrow> get (fold put vs s) k = get s k"
  by (auto simp: get_fold split: option.splits dest!: find_SomeD)

end

end
