(* ===== verification/Rust_Strings.thy ===== *)
theory Rust_Strings
  imports SEB_Prelude
begin

text \<open>
  The string operations of Rust's standard library that the code uses. A Rust \<open>str\<close> is its UTF-8
  bytes, so a \<open>string\<close> here is a list of bytes, \<open>len()\<close> is \<open>length\<close>, and a slice panics when it
  leaves the string or cuts a character. White space is Unicode's \<open>White_Space\<close>, as byte sequences.
\<close>

section \<open>Bytes, characters and slices\<close>

text \<open>The double quote.\<close>

definition dq :: string where
  "dq = [CHR 0x22]"

definition is_continuation :: "char \<Rightarrow> bool" where
  "is_continuation c \<longleftrightarrow> 128 \<le> (of_char c :: nat) \<and> (of_char c :: nat) < 192"

definition char_count :: "string \<Rightarrow> nat" where
  "char_count s = length (filter (\<lambda>c. \<not> is_continuation c) s)"

definition is_char_boundary :: "string \<Rightarrow> nat \<Rightarrow> bool" where
  "is_char_boundary s n \<longleftrightarrow>
     n = 0 \<or> n = length s \<or> (n < length s \<and> \<not> is_continuation (s ! n))"

text \<open>The slice \<open>&s[0..n]\<close>.\<close>

definition slice_to :: "nat \<Rightarrow> string \<Rightarrow> string res" where
  "slice_to n s = (if is_char_boundary s n then Inr (take n s) else Inl Panic)"

lemma slice_to_short [simp]: "length s < n \<Longrightarrow> slice_to n s = Inl Panic"
  by (auto simp: slice_to_def is_char_boundary_def)

lemma slice_to_Inr_iff: "slice_to n s = Inr t \<longleftrightarrow> is_char_boundary s n \<and> t = take n s"
  by (auto simp: slice_to_def)

lemma slice_to_defined: "(\<exists>t. slice_to n s = Inr t) \<longleftrightarrow> is_char_boundary s n"
  by (auto simp: slice_to_def)

lemma is_char_boundary_ascii:
  assumes "\<forall>c \<in> set s. (of_char c :: nat) < 128"
  shows "is_char_boundary s n \<longleftrightarrow> n \<le> length s"
proof -
  have "\<not> is_continuation (s ! n)" if "n < length s"
    using assms nth_mem [OF that] by (force simp: is_continuation_def)
  then show ?thesis by (auto simp: is_char_boundary_def)
qed

section \<open>Prefixes and substrings\<close>

fun strip_prefix :: "string \<Rightarrow> string \<Rightarrow> string option" where
  "strip_prefix [] s = Some s"
| "strip_prefix (p # ps) [] = None"
| "strip_prefix (p # ps) (c # s) = (if p = c then strip_prefix ps s else None)"

lemma strip_prefix_Some_iff: "strip_prefix p s = Some r \<longleftrightarrow> s = p @ r"
  by (induction p s rule: strip_prefix.induct) auto

lemma strip_prefix_append [simp]: "strip_prefix p (p @ r) = Some r"
  by (simp add: strip_prefix_Some_iff)

definition starts_with :: "string \<Rightarrow> string \<Rightarrow> bool" where
  "starts_with s p \<longleftrightarrow> strip_prefix p s \<noteq> None"

lemma starts_with_iff: "starts_with s p \<longleftrightarrow> (\<exists>r. s = p @ r)"
  by (auto simp: starts_with_def strip_prefix_Some_iff)

fun str_contains :: "string \<Rightarrow> string \<Rightarrow> bool" where
  "str_contains [] p = starts_with [] p"
| "str_contains (c # s) p = (starts_with (c # s) p \<or> str_contains s p)"

lemma str_contains_iff: "str_contains s p \<longleftrightarrow> sublist p s"
proof (induction s)
  case Nil
  show ?case by (auto simp: starts_with_iff sublist_def)
next
  case (Cons c s)
  then show ?case by (auto simp: starts_with_iff sublist_Cons_right prefix_def)
qed

text \<open>A pattern without the separator cannot straddle it.\<close>

lemma sublist_separator:
  assumes "c \<notin> set p"
  shows "sublist p (a @ c # b) \<longleftrightarrow> sublist p a \<or> sublist p b"
proof
  assume "sublist p (a @ c # b)"
  then obtain u v where uv: "a @ c # b = u @ p @ v" by (auto simp: sublist_def)
  then consider us where "a = u @ us" and "us @ c # b = p @ v"
    | us where "u = a @ us" and "c # b = us @ p @ v"
    by (auto simp: append_eq_append_conv2)
  then show "sublist p a \<or> sublist p b"
  proof cases
    case 1
    from 1(2) consider ws where "us = p @ ws" | ws where "p = us @ ws" and "c # b = ws @ v"
      by (auto simp: append_eq_append_conv2)
    then show ?thesis
    proof cases
      case 1
      with \<open>a = u @ us\<close> show ?thesis by (auto simp: sublist_def)
    next
      case 2
      with assms have "ws = []" by (cases ws) auto
      with 2 \<open>a = u @ us\<close> have "a = u @ p @ []" by simp
      then show ?thesis unfolding sublist_def by blast
    qed
  next
    case 2
    show ?thesis
    proof (cases us)
      case Nil
      with 2 assms have "p = []" by (cases p) auto
      then show ?thesis by simp
    next
      case (Cons d ds)
      with 2 show ?thesis by (auto simp: sublist_def)
    qed
  qed
next
  show "sublist p a \<or> sublist p b \<Longrightarrow> sublist p (a @ c # b)"
    by (auto simp: sublist_def) (metis append.assoc append_Cons)+
qed

text \<open>\<open>trim_start_matches(p)\<close> for a non-empty pattern: every leading occurrence goes.\<close>

function trim_start_matches :: "string \<Rightarrow> string \<Rightarrow> string" where
  "trim_start_matches p s =
     (if p = [] then s
      else case strip_prefix p s of None \<Rightarrow> s | Some r \<Rightarrow> trim_start_matches p r)"
  by pat_completeness auto
termination
  by (relation "measure (\<lambda>(p, s). length s)") (auto simp: strip_prefix_Some_iff)

declare trim_start_matches.simps [simp del]

lemma trim_start_matches_append:
  "p \<noteq> [] \<Longrightarrow> \<not> starts_with s p \<Longrightarrow> trim_start_matches p (p @ s) = s"
  by (simp add: trim_start_matches.simps [of p "p @ s"] trim_start_matches.simps [of p s]
      starts_with_def)

section \<open>White space\<close>

text \<open>The 25 code points of \<open>White_Space\<close>, in UTF-8.\<close>

definition white_space :: "string list" where
  "white_space =
     map (\<lambda>c. [c]) [CHR 0x09, CHR 0x0A, CHR 0x0B, CHR 0x0C, CHR 0x0D, CHR 0x20]
     @ [[CHR 0xC2, CHR 0x85], [CHR 0xC2, CHR 0xA0], [CHR 0xE1, CHR 0x9A, CHR 0x80]]
     @ map (\<lambda>c. [CHR 0xE2, CHR 0x80, c])
         [CHR 0x80, CHR 0x81, CHR 0x82, CHR 0x83, CHR 0x84, CHR 0x85, CHR 0x86, CHR 0x87,
          CHR 0x88, CHR 0x89, CHR 0x8A, CHR 0xA8, CHR 0xA9, CHR 0xAF]
     @ [[CHR 0xE2, CHR 0x81, CHR 0x9F], [CHR 0xE3, CHR 0x80, CHR 0x80]]"

fun strip_any :: "string list \<Rightarrow> string \<Rightarrow> string option" where
  "strip_any [] s = None"
| "strip_any (p # ps) s = (case strip_prefix p s of Some r \<Rightarrow> Some r | None \<Rightarrow> strip_any ps s)"

lemma strip_any_SomeD: "strip_any ps s = Some r \<Longrightarrow> \<exists>p \<in> set ps. s = p @ r"
  by (induction ps) (auto simp: strip_prefix_Some_iff split: option.splits)

lemma strip_any_None_iff: "strip_any ps s = None \<longleftrightarrow> (\<forall>p \<in> set ps. \<not> starts_with s p)"
  by (induction ps) (auto simp: starts_with_def split: option.splits)

lemma strip_any_cong_rev: "strip_any (map rev ps) s = Some r \<Longrightarrow> \<exists>p \<in> set ps. rev s = rev r @ p"
  by (drule strip_any_SomeD) auto

text \<open>Remove leading occurrences of the given non-empty sequences.\<close>

function trim_any :: "string list \<Rightarrow> string \<Rightarrow> string" where
  "trim_any ps s =
     (case strip_any ps s of None \<Rightarrow> s
      | Some r \<Rightarrow> if length r < length s then trim_any ps r else s)"
  by pat_completeness auto
termination
  by (relation "measure (\<lambda>(ps, s). length s)") auto

declare trim_any.simps [simp del]

definition trim_start :: "string \<Rightarrow> string" where
  "trim_start s = trim_any white_space s"

definition trim_end :: "string \<Rightarrow> string" where
  "trim_end s = rev (trim_any (map rev white_space) (rev s))"

definition trim :: "string \<Rightarrow> string" where
  "trim s = trim_end (trim_start s)"

lemma trim_any_suffix: "suffix (trim_any ps s) s"
proof (induction ps s rule: trim_any.induct)
  case (1 ps s)
  show ?case
  proof (cases "strip_any ps s")
    case None
    then show ?thesis by (simp add: trim_any.simps)
  next
    case (Some r)
    then have "suffix r s" by (auto dest: strip_any_SomeD simp: suffix_def)
    with Some 1 show ?thesis
      by (auto simp: trim_any.simps [of ps s] intro: suffix_order.trans)
  qed
qed

lemma strip_any_space: "strip_any white_space (CHR '' '' # s) = Some s"
  by (simp add: white_space_def)

lemma trim_space: "trim (CHR '' '' # s) = trim s"
  by (simp add: trim_def trim_start_def trim_any.simps [of _ "CHR '' '' # s"] strip_any_space)

lemma trim_Nil [simp]: "trim [] = []"
  by (simp add: trim_def trim_start_def trim_end_def trim_any.simps white_space_def)

lemma set_trim: "set (trim s) \<subseteq> set s"
proof -
  have "set (trim_end t) \<subseteq> set t" for t
    using set_mono_suffix [OF trim_any_suffix [of "map rev white_space" "rev t"]]
    by (simp add: trim_end_def)
  moreover have "set (trim_start s) \<subseteq> set s"
    using set_mono_suffix [OF trim_any_suffix [of white_space s]] by (simp add: trim_start_def)
  ultimately show ?thesis by (force simp: trim_def)
qed

text \<open>Trimming removes only white space.\<close>

lemma trim_any_removed: "\<exists>w. s = w @ trim_any ps s \<and> set w \<subseteq> \<Union> (set ` set ps)"
proof (induction ps s rule: trim_any.induct)
  case (1 ps s)
  show ?case
  proof (cases "strip_any ps s")
    case None
    then show ?thesis by (simp add: trim_any.simps)
  next
    case (Some r)
    then obtain p where p: "p \<in> set ps" "s = p @ r" by (auto dest: strip_any_SomeD)
    show ?thesis
    proof (cases "length r < length s")
      case True
      from 1 [OF Some True] obtain w where w: "r = w @ trim_any ps r" "set w \<subseteq> \<Union> (set ` set ps)" by blast
      have "trim_any ps s = trim_any ps r" using Some True by (simp add: trim_any.simps [of ps s])
      then have "s = (p @ w) @ trim_any ps s" using p(2) w(1) by simp
      moreover have "set (p @ w) \<subseteq> \<Union> (set ` set ps)" using p(1) w(2) by auto
      ultimately show ?thesis by blast
    next
      case False
      with Some show ?thesis by (simp add: trim_any.simps [of ps s])
    qed
  qed
qed

definition space_bytes :: "char set" where
  "space_bytes = \<Union> (set ` set white_space)"

lemma trim_any_keeps: "c \<in> set s \<Longrightarrow> c \<notin> \<Union> (set ` set ps) \<Longrightarrow> c \<in> set (trim_any ps s)"
  using trim_any_removed [of s ps] by (metis Un_iff set_append subsetD)

lemma trim_keeps:
  assumes "c \<in> set s" and "c \<notin> space_bytes"
  shows "c \<in> set (trim s)"
proof -
  have "\<Union> (set ` set (map rev white_space)) = space_bytes" by (auto simp: space_bytes_def)
  then show ?thesis
    using assms by (simp add: trim_def trim_start_def trim_end_def trim_any_keeps space_bytes_def)
qed

text \<open>\<open>split_whitespace\<close>: the maximal runs without white space; \<open>acc\<close> is the current run.\<close>

function split_ws_from :: "string \<Rightarrow> string \<Rightarrow> string list" where
  "split_ws_from acc s =
     (case s of [] \<Rightarrow> (if acc = [] then [] else [acc])
      | c # cs \<Rightarrow>
          (case strip_any white_space s of
             Some r \<Rightarrow>
               (if length r < length s
                then (if acc = [] then [] else [acc]) @ split_ws_from [] r
                else [])
           | None \<Rightarrow> split_ws_from (acc @ [c]) cs))"
  by pat_completeness auto
termination
  by (relation "measure (\<lambda>(acc, s). length s)") auto

declare split_ws_from.simps [simp del]

definition split_whitespace :: "string \<Rightarrow> string list" where
  "split_whitespace s = split_ws_from [] s"

section \<open>Lines and joins\<close>

definition newline :: char where
  "newline = CHR 0x0A"

definition strip_cr :: "string \<Rightarrow> string" where
  "strip_cr l = (if l \<noteq> [] \<and> last l = CHR 0x0D then butlast l else l)"

text \<open>\<open>lines()\<close>: a line ends in a line feed, or a carriage return and a line feed.\<close>

function lines :: "string \<Rightarrow> string list" where
  "lines s =
     (if s = [] then []
      else case dropWhile (\<lambda>c. c \<noteq> newline) s of
             [] \<Rightarrow> [s]
           | nl # rest \<Rightarrow> strip_cr (takeWhile (\<lambda>c. c \<noteq> newline) s) # lines rest)"
  by pat_completeness auto
termination
proof (relation "measure length", goal_cases)
  case 1
  show ?case by simp
next
  case (2 s nl rest)
  from 2(2) have "length (nl # rest) \<le> length s" by (metis length_dropWhile_le)
  then show ?case by simp
qed

declare lines.simps [simp del]

lemma lines_Nil [simp]: "lines [] = []"
  by (simp add: lines.simps)

lemma lines_cons:
  assumes "newline \<notin> set l"
  shows "lines (l @ newline # rest) = strip_cr l # lines rest"
proof -
  from assms have "\<forall>c \<in> set l. c \<noteq> newline" by auto
  then have "dropWhile (\<lambda>c. c \<noteq> newline) (l @ newline # rest) = newline # rest"
    and "takeWhile (\<lambda>c. c \<noteq> newline) (l @ newline # rest) = l"
    by (simp_all add: dropWhile_append3 takeWhile_append)
  then show ?thesis by (simp add: lines.simps [of "l @ newline # rest"])
qed

lemma lines_single:
  assumes "newline \<notin> set l" and "l \<noteq> []"
  shows "lines l = [l]"
proof -
  from assms(1) have "\<forall>c \<in> set l. c \<noteq> newline" by auto
  then have "dropWhile (\<lambda>c. c \<noteq> newline) l = []" by (simp add: dropWhile_eq_Nil_conv)
  with assms(2) show ?thesis by (subst lines.simps) (simp del: dropWhile_eq_Nil_conv)
qed

lemma lines_append:
  "c = [] \<or> last c = newline \<Longrightarrow> lines (c @ x) = lines c @ lines x"
proof (induction "length c" arbitrary: c rule: less_induct)
  case less
  show ?case
  proof (cases "c = []")
    case False
    with less.prems have "newline \<in> set c" by (metis last_in_set)
    then obtain l r where lr: "c = l @ newline # r" "newline \<notin> set l" by (metis split_list_first)
    have "r = [] \<or> last r = newline" using less.prems lr(1) by (auto split: if_splits)
    then have "lines (r @ x) = lines r @ lines x" using less.hyps [of r] lr(1) by simp
    with lr show ?thesis by (simp add: lines_cons)
  qed simp
qed

fun str_join :: "string \<Rightarrow> string list \<Rightarrow> string" where
  "str_join sep [] = []"
| "str_join sep [x] = x"
| "str_join sep (x # y # ys) = x @ sep @ str_join sep (y # ys)"

definition str_repeat :: "string \<Rightarrow> nat \<Rightarrow> string" where
  "str_repeat s n = concat (replicate n s)"

section \<open>Formatting\<close>

fun show_nat :: "nat \<Rightarrow> string" where
  "show_nat n = (if n < 10 then [char_of (48 + n)] else show_nat (n div 10) @ [char_of (48 + n mod 10)])"

declare show_nat.simps [simp del]

definition show_int :: "int \<Rightarrow> string" where
  "show_int i = (if i < 0 then ''-'' @ show_nat (nat (- i)) else show_nat (nat i))"

text \<open>\<open>{:0w}\<close> on a number, \<open>{:w}\<close> on a string (which counts characters, not bytes).\<close>

definition pad_zero :: "nat \<Rightarrow> string \<Rightarrow> string" where
  "pad_zero w s = replicate (w - length s) (CHR ''0'') @ s"

definition pad_right :: "nat \<Rightarrow> string \<Rightarrow> string" where
  "pad_right w s = s @ replicate (w - char_count s) (CHR '' '')"

lemma show_nat_digits: "c \<in> set (show_nat n) \<Longrightarrow> \<exists>d < 10. c = char_of (48 + d :: nat)"
proof (induction n rule: show_nat.induct)
  case (1 n)
  show ?case
  proof (cases "n < 10")
    case True
    with "1.prems" show ?thesis by (auto simp: show_nat.simps [of n])
  next
    case False
    with "1.prems" have "c \<in> set (show_nat (n div 10)) \<or> c = char_of (48 + n mod 10)"
      by (auto simp: show_nat.simps [of n])
    moreover have "n mod 10 < 10" by simp
    ultimately show ?thesis using False "1.IH" by blast
  qed
qed

lemma show_nat_not_Nil [simp]: "show_nat n \<noteq> []" "[] \<noteq> show_nat n"
  by (simp_all add: show_nat.simps [of n])

section \<open>UTF-8\<close>

text \<open>\<open>read_to_string\<close> rejects a file that is not UTF-8; the remainder after one character.\<close>

definition byte_in :: "nat \<Rightarrow> nat \<Rightarrow> char \<Rightarrow> bool" where
  "byte_in lo hi c \<longleftrightarrow> lo \<le> of_char c \<and> of_char c \<le> hi"

fun utf8_tail :: "(nat \<times> nat) list \<Rightarrow> string \<Rightarrow> string option" where
  "utf8_tail [] s = Some s"
| "utf8_tail ((lo, hi) # rs) [] = None"
| "utf8_tail ((lo, hi) # rs) (c # s) = (if byte_in lo hi c then utf8_tail rs s else None)"

definition utf8_follow :: "char \<Rightarrow> (nat \<times> nat) list option" where
  "utf8_follow c =
     (let any = (0x80, 0xBF) in
      if byte_in 0 0x7F c then Some []
      else if byte_in 0xC2 0xDF c then Some [any]
      else if byte_in 0xE0 0xE0 c then Some [(0xA0, 0xBF), any]
      else if byte_in 0xED 0xED c then Some [(0x80, 0x9F), any]
      else if byte_in 0xE1 0xEF c then Some [any, any]
      else if byte_in 0xF0 0xF0 c then Some [(0x90, 0xBF), any, any]
      else if byte_in 0xF1 0xF3 c then Some [any, any, any]
      else if byte_in 0xF4 0xF4 c then Some [(0x80, 0x8F), any, any]
      else None)"

lemma utf8_tail_length: "utf8_tail rs s = Some r \<Longrightarrow> length r \<le> length s"
  by (induction rs s rule: utf8_tail.induct) (auto split: if_splits)

function utf8_valid :: "string \<Rightarrow> bool" where
  "utf8_valid [] = True"
| "utf8_valid (c # s) =
     (case utf8_follow c of None \<Rightarrow> False
      | Some rs \<Rightarrow> (case utf8_tail rs s of None \<Rightarrow> False | Some r \<Rightarrow> utf8_valid r))"
  by pat_completeness auto
termination
  by (relation "measure length") (auto dest!: utf8_tail_length)

section \<open>Letter case\<close>

text \<open>
  \<open>str::to_lowercase\<close> follows the tables of Unicode and is an argument where the code calls it; on ASCII
  text it is documented to change the letters A to Z only.
\<close>

definition ascii_lower :: "char \<Rightarrow> char" where
  "ascii_lower c =
     (if 65 \<le> (of_char c :: nat) \<and> (of_char c :: nat) \<le> 90 then char_of ((of_char c :: nat) + 32) else c)"

definition lowers_ascii :: "(string \<Rightarrow> string) \<Rightarrow> bool" where
  "lowers_ascii lower \<longleftrightarrow>
     (\<forall>s. list_all (\<lambda>c. (of_char c :: nat) < 128) s \<longrightarrow> lower s = map ascii_lower s)"

lemma lowers_ascii_map: "lowers_ascii (map ascii_lower)"
  by (simp add: lowers_ascii_def)

end
