(* ===== verification/Rust_Floats.thy ===== *)
theory Rust_Floats
  imports Complex_Main "HOL-Library.Log_Nat"
begin

text \<open>
  Binary floating point as Rust's \<open>f32\<close> and \<open>f64\<close> use it: a value is not a number, an infinity, or a
  sign and a magnitude, and every operation rounds the exact result to the nearest value of the
  format, ties to even. The operations are the ones the code applies: multiplication, division,
  comparison, \<open>round\<close>, conversions from and saturating casts to integers.
\<close>

datatype fl = NaN | Inf bool | Fin bool rat

text \<open>
  A format: the number of significant bits, the exponent of the smallest subnormal, the largest
  exponent.
\<close>

record fl_format =
  fl_prec :: nat
  fl_emin :: int
  fl_emax :: int

definition binary32 :: fl_format where
  "binary32 = \<lparr>fl_prec = 24, fl_emin = -149, fl_emax = 127\<rparr>"

definition binary64 :: fl_format where
  "binary64 = \<lparr>fl_prec = 53, fl_emin = -1074, fl_emax = 1023\<rparr>"

section \<open>Rounding\<close>

text \<open>To the nearest integer, ties to even.\<close>

definition rne :: "rat \<Rightarrow> int" where
  "rne q = (let f = \<lfloor>q\<rfloor>; r = q - of_int f
            in if r < 1 / 2 then f else if 1 / 2 < r then f + 1 else if even f then f else f + 1)"

text \<open>\<open>\<lfloor>log 2 q\<rfloor>\<close> for positive \<open>q\<close>.\<close>

definition ilog2 :: "rat \<Rightarrow> int" where
  "ilog2 q = (let (a, b) = quotient_of q; k = bitlen a - bitlen b
              in if 2 powi k \<le> q then k else k - 1)"

definition ulp_exp :: "fl_format \<Rightarrow> rat \<Rightarrow> int" where
  "ulp_exp F q = max (ilog2 q - (int (fl_prec F) - 1)) (fl_emin F)"

definition rnd :: "fl_format \<Rightarrow> rat \<Rightarrow> rat" where
  "rnd F q = (if q = 0 then 0
              else of_int (rne (q / 2 powi ulp_exp F q)) * 2 powi ulp_exp F q)"

definition fl_round_mag :: "fl_format \<Rightarrow> bool \<Rightarrow> rat \<Rightarrow> fl" where
  "fl_round_mag F s m =
     (let r = rnd F m in if 2 powi (fl_emax F + 1) \<le> r then Inf s else Fin s r)"

section \<open>Operations\<close>

definition fl_of_rat :: "fl_format \<Rightarrow> rat \<Rightarrow> fl" where
  "fl_of_rat F q = fl_round_mag F (q < 0) \<bar>q\<bar>"

fun fl_mul :: "fl_format \<Rightarrow> fl \<Rightarrow> fl \<Rightarrow> fl" where
  "fl_mul F NaN _ = NaN"
| "fl_mul F _ NaN = NaN"
| "fl_mul F (Inf s) (Inf t) = Inf (s \<noteq> t)"
| "fl_mul F (Inf s) (Fin t n) = (if n = 0 then NaN else Inf (s \<noteq> t))"
| "fl_mul F (Fin s m) (Inf t) = (if m = 0 then NaN else Inf (s \<noteq> t))"
| "fl_mul F (Fin s m) (Fin t n) = fl_round_mag F (s \<noteq> t) (m * n)"

fun fl_div :: "fl_format \<Rightarrow> fl \<Rightarrow> fl \<Rightarrow> fl" where
  "fl_div F NaN _ = NaN"
| "fl_div F _ NaN = NaN"
| "fl_div F (Inf s) (Inf t) = NaN"
| "fl_div F (Inf s) (Fin t n) = Inf (s \<noteq> t)"
| "fl_div F (Fin s m) (Inf t) = Fin (s \<noteq> t) 0"
| "fl_div F (Fin s m) (Fin t n) =
     (if n = 0 then (if m = 0 then NaN else Inf (s \<noteq> t)) else fl_round_mag F (s \<noteq> t) (m / n))"

definition fl_val :: "bool \<Rightarrow> rat \<Rightarrow> rat" where
  "fl_val s m = (if s then - m else m)"

text \<open>\<open>a < b\<close>, and \<open>partial_cmp\<close>: \<open>None\<close> when a side is not a number.\<close>

fun fl_lt :: "fl \<Rightarrow> fl \<Rightarrow> bool" where
  "fl_lt NaN _ = False"
| "fl_lt _ NaN = False"
| "fl_lt (Inf s) (Inf t) = (s \<and> \<not> t)"
| "fl_lt (Inf s) (Fin t n) = s"
| "fl_lt (Fin s m) (Inf t) = (\<not> t)"
| "fl_lt (Fin s m) (Fin t n) = (fl_val s m < fl_val t n)"

datatype ordering = Less | Equal | Greater

definition fl_partial_cmp :: "fl \<Rightarrow> fl \<Rightarrow> ordering option" where
  "fl_partial_cmp a b =
     (if a = NaN \<or> b = NaN then None
      else if fl_lt a b then Some Less else if fl_lt b a then Some Greater else Some Equal)"

text \<open>\<open>round()\<close>: to the nearest integer, halves away from zero.\<close>

fun fl_round :: "fl \<Rightarrow> fl" where
  "fl_round NaN = NaN"
| "fl_round (Inf s) = Inf s"
| "fl_round (Fin s m) = Fin s (of_int \<lfloor>m + 1 / 2\<rfloor>)"

text \<open>Casts: \<open>as usize\<close> and \<open>as i32\<close> truncate and saturate; a not-a-number becomes 0.\<close>

definition usize_max :: nat where
  "usize_max = 2 ^ 64 - 1"

fun fl_to_usize :: "fl \<Rightarrow> nat" where
  "fl_to_usize NaN = 0"
| "fl_to_usize (Inf s) = (if s then 0 else usize_max)"
| "fl_to_usize (Fin s m) = (if s then 0 else min usize_max (nat \<lfloor>m\<rfloor>))"

definition clamp_i32 :: "int \<Rightarrow> int" where
  "clamp_i32 i = max (- (2 ^ 31)) (min (2 ^ 31 - 1) i)"

fun fl_to_i32 :: "fl \<Rightarrow> int" where
  "fl_to_i32 NaN = 0"
| "fl_to_i32 (Inf s) = (if s then - (2 ^ 31) else 2 ^ 31 - 1)"
| "fl_to_i32 (Fin s m) = clamp_i32 (if s then - \<lfloor>m\<rfloor> else \<lfloor>m\<rfloor>)"

section \<open>Facts about rounding\<close>

lemma rne_of_int [simp]: "rne (of_int i) = i"
  by (simp add: rne_def)

lemma rne_bounds: "of_int (rne q) - q \<le> 1 / 2" "q - of_int (rne q) \<le> 1 / 2"
proof -
  define f :: rat where "f = of_int \<lfloor>q\<rfloor>"
  have "f \<le> q" "q < f + 1" unfolding f_def by linarith+
  then show "of_int (rne q) - q \<le> 1 / 2" "q - of_int (rne q) \<le> 1 / 2"
    by (auto simp: rne_def Let_def simp flip: f_def)
qed

lemma rne_mono: "x \<le> y \<Longrightarrow> rne x \<le> rne y"
proof (rule ccontr)
  assume xy: "x \<le> y" and "\<not> rne x \<le> rne y"
  then have "(of_int (rne y) :: rat) + 1 \<le> of_int (rne x)" by linarith
  with rne_bounds(1) [of x] rne_bounds(2) [of y] xy have "x = y" by linarith
  with \<open>\<not> rne x \<le> rne y\<close> show False by simp
qed

lemma pow2_pos [simp]: "0 < (2 :: rat) powi k"
  by simp

lemma ilog2_bounds:
  assumes "0 < q"
  shows "2 powi ilog2 q \<le> q" and "q < 2 powi (ilog2 q + 1)"
proof -
  obtain a b where ab: "quotient_of q = (a, b)" by (cases "quotient_of q")
  then have b: "0 < b" and q: "q = of_int a / of_int b"
    by (auto dest: quotient_of_denom_pos quotient_of_div)
  with assms have a: "0 < a" by (simp add: zero_less_divide_iff)
  define A B where "A = bitlen a" and "B = bitlen b"
  have A1: "1 \<le> A" and B1: "1 \<le> B"
    using a b bitlen_nonneg [of a] bitlen_nonneg [of b] bitlen_eq_zero_iff [of a] bitlen_eq_zero_iff [of b]
    unfolding A_def B_def by linarith+
  have "of_int (2 ^ nat (A - 1)) \<le> (of_int a :: rat)" "of_int a < (of_int (2 ^ nat A) :: rat)"
    "of_int (2 ^ nat (B - 1)) \<le> (of_int b :: rat)" "of_int b < (of_int (2 ^ nat B) :: rat)"
    unfolding A_def B_def using bitlen_bounds [OF a] bitlen_bounds [OF b]
    by (simp_all only: of_int_le_iff of_int_less_iff)
  then have bnds: "2 powi (A - 1) \<le> (of_int a :: rat)" "of_int a < (2 :: rat) powi A"
    "2 powi (B - 1) \<le> (of_int b :: rat)" "of_int b < (2 :: rat) powi B"
    using A1 B1 by (simp_all add: power_int_def)
  have lo: "2 powi (A - B - 1) < q"
  proof -
    have "2 powi (A - B - 1) * of_int b < 2 powi (A - B - 1) * (2 :: rat) powi B"
      using bnds(4) by simp
    also have "\<dots> = 2 powi (A - 1)" by (simp flip: power_int_add)
    also have "\<dots> \<le> of_int a" by (rule bnds(1))
    finally show ?thesis using b by (simp add: q field_simps)
  qed
  have hi: "q < 2 powi (A - B + 1)"
  proof -
    have "of_int a < (2 :: rat) powi A" by (rule bnds(2))
    also have "\<dots> = 2 powi (A - B + 1) * 2 powi (B - 1)" by (simp flip: power_int_add)
    also have "\<dots> \<le> 2 powi (A - B + 1) * of_int b" using bnds(3) by simp
    finally show ?thesis using b by (simp add: q field_simps)
  qed
  show "2 powi ilog2 q \<le> q" "q < 2 powi (ilog2 q + 1)"
    using lo hi by (auto simp: ilog2_def ab A_def B_def Let_def)
qed

lemma powi2_less_iff: "(2 :: rat) powi i < 2 powi j \<longleftrightarrow> i < j"
  by (meson linorder_not_less one_less_numeral_iff power_int_increasing power_int_strict_increasing
      semiring_norm(76) order_less_imp_le)

lemma ilog2_mono:
  assumes "0 < x" and "x \<le> y"
  shows "ilog2 x \<le> ilog2 y"
proof -
  have "2 powi ilog2 x \<le> x" using assms by (simp add: ilog2_bounds)
  also have "x \<le> y" by fact
  also have "y < 2 powi (ilog2 y + 1)" using assms by (simp add: ilog2_bounds)
  finally show ?thesis by (simp add: powi2_less_iff)
qed

lemma rnd_zero [simp]: "rnd F 0 = 0"
  by (simp add: rnd_def)

lemma powi2_int: "0 \<le> k \<Longrightarrow> (2 :: rat) powi k = of_int (2 ^ nat k)"
  by (simp add: power_int_def)

lemma scale_pow:
  assumes "e \<le> k"
  shows "of_int m * (2 :: rat) powi k / 2 powi e = of_int (m * 2 ^ nat (k - e))"
proof -
  have "(2 :: rat) powi k / 2 powi e = 2 powi (k - e)" by (simp add: power_int_diff)
  also have "\<dots> = of_int (2 ^ nat (k - e))" using assms by (simp only: powi2_int diff_ge_0_iff_ge)
  finally have "of_int m * ((2 :: rat) powi k / 2 powi e) = of_int m * of_int (2 ^ nat (k - e))"
    by simp
  then show ?thesis by simp
qed

lemma rnd_le:
  assumes "y \<le> of_int m * 2 powi k" and "ulp_exp F y \<le> k" and "y \<noteq> 0"
  shows "rnd F y \<le> of_int m * 2 powi k"
proof -
  let ?e = "2 powi ulp_exp F y :: rat"
  have "y / ?e \<le> of_int (m * 2 ^ nat (k - ulp_exp F y))"
    using assms(1) scale_pow [OF assms(2), of m, symmetric] by (simp add: divide_right_mono)
  from rne_mono [OF this] have "rne (y / ?e) \<le> m * 2 ^ nat (k - ulp_exp F y)"
    by (simp only: rne_of_int)
  then have "of_int (rne (y / ?e)) \<le> of_int m * 2 powi k / ?e"
    unfolding scale_pow [OF assms(2)] by (simp only: of_int_le_iff)
  then show ?thesis using assms(3) by (simp add: rnd_def field_simps)
qed

lemma rnd_ge:
  assumes "of_int m * 2 powi k \<le> y" and "ulp_exp F y \<le> k" and "y \<noteq> 0"
  shows "of_int m * 2 powi k \<le> rnd F y"
proof -
  let ?e = "2 powi ulp_exp F y :: rat"
  have "of_int (m * 2 ^ nat (k - ulp_exp F y)) \<le> y / ?e"
    using assms(1) scale_pow [OF assms(2), of m, symmetric] by (simp add: divide_right_mono)
  from rne_mono [OF this] have "m * 2 ^ nat (k - ulp_exp F y) \<le> rne (y / ?e)"
    by (simp only: rne_of_int)
  then have "of_int m * 2 powi k / ?e \<le> of_int (rne (y / ?e))"
    unfolding scale_pow [OF assms(2)] by (simp only: of_int_le_iff)
  then show ?thesis using assms(3) by (simp add: rnd_def field_simps)
qed

text \<open>A value of the format is not changed.\<close>

lemma rnd_exact:
  assumes "y = of_int m * 2 powi k" and "ulp_exp F y \<le> k"
  shows "rnd F y = y"
proof (cases "y = 0")
  case False
  with assms rnd_le [of y m k F] rnd_ge [of m k y F] show ?thesis by simp
qed simp

lemma rnd_mono:
  assumes "0 \<le> x" and "x \<le> y" and "0 < fl_prec F"
  shows "rnd F x \<le> rnd F y"
proof (cases "x = 0")
  case True
  have "0 \<le> rnd F y" if "0 < y"
    using that rnd_ge [of 0 "ulp_exp F y" y F] by simp
  with True assms show ?thesis by (cases "y = 0") auto
next
  case False
  with assms have x: "0 < x" and y: "0 < y" by simp_all
  have ex_le: "ulp_exp F x \<le> ulp_exp F y"
    using ilog2_mono [OF x assms(2)] by (simp add: ulp_exp_def)
  show ?thesis
  proof (cases "ulp_exp F x = ulp_exp F y")
    case True
    have "rne (x / 2 powi ulp_exp F y) \<le> rne (y / 2 powi ulp_exp F y)"
      using assms(2) by (simp add: rne_mono divide_right_mono)
    then show ?thesis using x y True by (simp add: rnd_def mult_right_mono)
  next
    case False
    with ex_le have lt: "ulp_exp F x < ulp_exp F y" by simp
    let ?k = "ilog2 y"
    have e: "ulp_exp F y = ?k - (int (fl_prec F) - 1)" and l: "ilog2 x + 1 \<le> ?k"
      using lt by (auto simp: ulp_exp_def)
    have k: "ulp_exp F y \<le> ?k" using e assms(3) by simp
    have "x < 2 powi (ilog2 x + 1)" by (rule ilog2_bounds(2) [OF x])
    also have "(2 :: rat) powi (ilog2 x + 1) \<le> 2 powi ?k" using l by (simp add: power_int_increasing)
    finally have "x \<le> of_int 1 * 2 powi ?k" by simp
    then have "rnd F x \<le> of_int 1 * 2 powi ?k" using lt k x by (intro rnd_le) auto
    also have "\<dots> \<le> rnd F y" using ilog2_bounds(1) [OF y] k y by (intro rnd_ge) auto
    finally show ?thesis .
  qed
qed

lemma rnd_nonneg: "0 \<le> x \<Longrightarrow> 0 < fl_prec F \<Longrightarrow> 0 \<le> rnd F x"
  using rnd_mono [of 0 x F] by simp

text \<open>The error is at most half a unit in the last place.\<close>

lemma rnd_error: "\<bar>rnd F q - q\<bar> \<le> 2 powi ulp_exp F q / 2"
proof (cases "q = 0")
  case False
  let ?e = "2 powi ulp_exp F q :: rat"
  have "\<bar>of_int (rne (q / ?e)) - q / ?e\<bar> \<le> 1 / 2"
    using rne_bounds [of "q / ?e"] by linarith
  then have "\<bar>of_int (rne (q / ?e)) - q / ?e\<bar> * ?e \<le> 1 / 2 * ?e"
    by (rule mult_right_mono) simp
  moreover have "\<bar>of_int (rne (q / ?e)) - q / ?e\<bar> * ?e = \<bar>(of_int (rne (q / ?e)) - q / ?e) * ?e\<bar>"
    by (simp add: abs_mult)
  moreover have "(of_int (rne (q / ?e)) - q / ?e) * ?e = rnd F q - q"
    using False by (simp add: rnd_def algebra_simps)
  ultimately show ?thesis by simp
qed simp

section \<open>Small integers\<close>

text \<open>A format in which the integers below \<open>2 ^ fl_prec\<close> are values.\<close>

definition regular :: "fl_format \<Rightarrow> bool" where
  "regular F \<longleftrightarrow> 0 < fl_prec F \<and> fl_emin F \<le> 0 \<and> int (fl_prec F) \<le> fl_emax F + 1"

lemma regular_formats [simp]: "regular binary32" "regular binary64"
  by (simp_all add: regular_def binary32_def binary64_def)

lemma ilog2_less: "0 < q \<Longrightarrow> q < 2 powi k \<Longrightarrow> ilog2 q < k"
  using ilog2_bounds(1) [of q] by (metis order_le_less_trans powi2_less_iff)

lemma rnd_of_nat:
  assumes "regular F" and "n < 2 ^ fl_prec F"
  shows "rnd F (of_nat n) = of_nat n"
proof (cases "n = 0")
  case False
  from assms(2) have "(of_nat n :: rat) < of_nat (2 ^ fl_prec F)" by (simp only: of_nat_less_iff)
  then have "ilog2 (of_nat n) < int (fl_prec F)" using False by (intro ilog2_less) auto
  with assms(1) have "ulp_exp F (of_nat n) \<le> 0" by (auto simp: ulp_exp_def regular_def)
  then show ?thesis by (intro rnd_exact [where m = "int n" and k = 0]) simp_all
qed simp

lemma fl_round_mag_le:
  assumes F: "regular F" and n: "n < 2 ^ fl_prec F" and "0 \<le> m" and "m \<le> of_nat n"
  shows "fl_round_mag F s m = Fin s (rnd F m)" and "0 \<le> rnd F m" and "rnd F m \<le> of_nat n"
proof -
  from F have p: "0 < fl_prec F" by (simp add: regular_def)
  show "0 \<le> rnd F m" using assms(3) p by (rule rnd_nonneg)
  show le: "rnd F m \<le> of_nat n"
    using rnd_mono [OF assms(3,4) p] rnd_of_nat [OF F n] by simp
  have "(of_nat n :: rat) < of_nat (2 ^ fl_prec F)" using n by (simp only: of_nat_less_iff)
  also have "\<dots> = 2 powi int (fl_prec F)" by simp
  also have "\<dots> \<le> 2 powi (fl_emax F + 1)"
    using F by (intro power_int_increasing) (auto simp: regular_def)
  finally show "fl_round_mag F s m = Fin s (rnd F m)" using le by (simp add: fl_round_mag_def)
qed

lemma fl_of_nat: "regular F \<Longrightarrow> n < 2 ^ fl_prec F \<Longrightarrow> fl_of_rat F (of_nat n) = Fin False (of_nat n)"
  by (simp add: fl_of_rat_def fl_round_mag_le rnd_of_nat)

end
