(* ===== verification/Externals.thy ===== *)
theory Externals
  imports Rust_Strings Rust_Floats
begin

text \<open>
  The data of \<open>serde_json\<close> and the functions of third-party crates that the code calls. The
  functions are the fields of \<open>extern\<close>, an argument of every definition that uses one; what a
  theorem relies on is a named predicate on it.

  A \<open>json\<close> value is the tree that is written out: \<open>JObj\<close> lists its members in output order. A
  derived \<open>Serialize\<close> writes the fields of a struct in the order of their declaration; a
  \<open>serde_json::Value\<close> keeps its members in a \<open>BTreeMap\<close>, so in the order of the keys (\<open>jmap\<close>).
\<close>

datatype json =
    JNull
  | JBool bool
  | JInt int
  | JFloat fl
  | JStr string
  | JArr "json list"
  | JObj "(string \<times> json) list"

text \<open>Insertion into a \<open>BTreeMap\<close>, kept as its list of entries in key order.\<close>

fun bt_insert :: "string \<Rightarrow> 'v \<Rightarrow> (string \<times> 'v) list \<Rightarrow> (string \<times> 'v) list" where
  "bt_insert k v [] = [(k, v)]"
| "bt_insert k v ((k', v') # m) =
     (if k < k' then (k, v) # (k', v') # m
      else if k = k' then (k, v) # m
      else (k', v') # bt_insert k v m)"

definition jmap :: "(string \<times> json) list \<Rightarrow> json" where
  "jmap kvs = JObj (fold (\<lambda>(k, v). bt_insert k v) kvs [])"

text \<open>
  \<open>serde_json::to_value\<close> on a value that serializes to the given tree: every object becomes a map.
\<close>

fun to_value :: "json \<Rightarrow> json" where
  "to_value (JObj kvs) = jmap (map (\<lambda>(k, v). (k, to_value v)) kvs)"
| "to_value (JArr xs) = JArr (map to_value xs)"
| "to_value j = j"

fun jget :: "string \<Rightarrow> json \<Rightarrow> json option" where
  "jget k (JObj m) = map_of m k"
| "jget k _ = None"

text \<open>An \<open>Option<String>\<close>, an \<open>f64\<close> (a value that is not finite is written as \<open>null\<close>), a vector.\<close>

definition jopt :: "string option \<Rightarrow> json" where
  "jopt x = (case x of None \<Rightarrow> JNull | Some s \<Rightarrow> JStr s)"

fun jfloat :: "fl \<Rightarrow> json" where
  "jfloat NaN = JNull"
| "jfloat (Inf s) = JNull"
| "jfloat (Fin s m) = JFloat (Fin s m)"

fun members :: "json \<Rightarrow> (string \<times> json) list" where
  "members (JObj ms) = ms"
| "members _ = []"

definition jstrs :: "string list \<Rightarrow> json" where
  "jstrs xs = JArr (map JStr xs)"

record extern =
  blake3_hex :: "string \<Rightarrow> string"
    \<comment> \<open>\<open>blake3::hash(bytes).to_hex()\<close>\<close>
  json_text :: "json \<Rightarrow> string"
    \<comment> \<open>\<open>serde_json::to_string\<close>, on the tree a value serializes to\<close>
  json_pretty :: "json \<Rightarrow> string"
    \<comment> \<open>\<open>serde_json::to_string_pretty\<close>\<close>
  json_parse :: "string \<Rightarrow> json option"
    \<comment> \<open>the tree \<open>serde_json::from_str\<close> reads, members in the order of the text\<close>
  ts_serde :: "timestamp \<Rightarrow> string"
    \<comment> \<open>the text chrono's \<open>Serialize\<close> gives a \<open>DateTime<Utc>\<close>\<close>
  ts_parse :: "string \<Rightarrow> timestamp option"
    \<comment> \<open>chrono's \<open>Deserialize\<close>\<close>
  to_rfc3339 :: "timestamp \<Rightarrow> string"
  rfc3339_secs :: "timestamp \<Rightarrow> string"
    \<comment> \<open>\<open>to_rfc3339_opts(SecondsFormat::Secs, true)\<close>\<close>
  rfc3339_millis :: "timestamp \<Rightarrow> string"
    \<comment> \<open>\<open>to_rfc3339_opts(SecondsFormat::Millis, true)\<close>\<close>
  ts_display :: "timestamp \<Rightarrow> string"
    \<comment> \<open>\<open>format("%Y-%m-%d %H:%M:%S UTC")\<close>\<close>
  ms_between :: "timestamp \<Rightarrow> timestamp \<Rightarrow> int"
    \<comment> \<open>\<open>(a - b).num_milliseconds()\<close>\<close>
  secs_between :: "timestamp \<Rightarrow> timestamp \<Rightarrow> int"
    \<comment> \<open>\<open>(a - b).num_seconds()\<close>\<close>

text \<open>Documented behaviour of these functions, as hypotheses theorems name.\<close>

text \<open>A BLAKE3 digest is 32 bytes, so 64 lower-case hexadecimal digits.\<close>

definition hex_digit :: "char \<Rightarrow> bool" where
  "hex_digit c \<longleftrightarrow> c \<in> set ''0123456789abcdef''"

definition digest_is_hex64 :: "extern \<Rightarrow> bool" where
  "digest_is_hex64 X \<longleftrightarrow>
     (\<forall>s. length (blake3_hex X s) = 64 \<and> (\<forall>c \<in> set (blake3_hex X s). hex_digit c))"

text \<open>The written form of a time determines it.\<close>

definition ts_serde_injective :: "extern \<Rightarrow> bool" where
  "ts_serde_injective X \<longleftrightarrow> (\<forall>a b. ts_serde X a = ts_serde X b \<longrightarrow> a = b)"

text \<open>A difference of times is truncated to whole milliseconds.\<close>

definition ms_truncates :: "extern \<Rightarrow> bool" where
  "ms_truncates X \<longleftrightarrow>
     (\<forall>a b. ms_between X a b = (if b \<le> a then (a - b) div 1000000 else - ((b - a) div 1000000)))"

text \<open>Decimal numerals read back, so they determine the number.\<close>

definition read_nat :: "string \<Rightarrow> nat" where
  "read_nat s = foldl (\<lambda>n c. 10 * n + (of_char c - 48)) 0 s"

definition read_int :: "string \<Rightarrow> int" where
  "read_int s = (if s \<noteq> [] \<and> hd s = CHR ''-'' then - int (read_nat (List.tl s)) else int (read_nat s))"

lemma show_nat_single: "n < 10 \<Longrightarrow> show_nat n = [char_of (48 + n)]"
  by (simp add: show_nat.simps [of n])

lemma show_nat_snoc: "10 \<le> n \<Longrightarrow> show_nat n = show_nat (n div 10) @ [char_of (48 + n mod 10)]"
  by (simp add: show_nat.simps [of n])

lemma read_show_nat [simp]: "read_nat (show_nat n) = n"
proof (induction n rule: show_nat.induct)
  case (1 n)
  show ?case
  proof (cases "n < 10")
    case True
    then show ?thesis by (simp add: show_nat_single read_nat_def of_char_of)
  next
    case False
    then have "read_nat (show_nat n) = 10 * read_nat (show_nat (n div 10)) + n mod 10"
      by (simp add: show_nat_snoc read_nat_def of_char_of)
    with 1 False show ?thesis by simp
  qed
qed

lemma minus_notin_show_nat: "CHR ''-'' \<notin> set (show_nat n)"
proof
  assume "CHR ''-'' \<in> set (show_nat n)"
  then obtain d :: nat where "d < 10" and "CHR ''-'' = char_of (48 + d)"
    by (blast dest: show_nat_digits)
  then have "(of_char (CHR ''-'') :: nat) = of_char (char_of (48 + d) :: char)" by simp
  with \<open>d < 10\<close> show False by (simp add: of_char_of)
qed

lemma read_show_int [simp]: "read_int (show_int a) = a"
proof -
  have "show_nat n \<noteq> [] \<longrightarrow> hd (show_nat n) \<noteq> CHR ''-''" for n
    using minus_notin_show_nat [of n] by (metis list.set_sel(1))
  then show ?thesis by (auto simp: read_int_def show_int_def)
qed

lemma show_nat_inj: "show_nat m = show_nat n \<Longrightarrow> m = n"
  by (metis read_show_nat)

text \<open>An instance for the witnesses: every function has the behaviour assumed above.\<close>

definition demo_extern :: extern where
  "demo_extern =
     \<lparr>blake3_hex = (\<lambda>s. replicate 64 (CHR ''0'')),
      json_text = (\<lambda>j. []),
      json_pretty = (\<lambda>j. ''{}''),
      json_parse = (\<lambda>s. None),
      ts_serde = show_int,
      ts_parse = (\<lambda>s. Some (read_int s)),
      to_rfc3339 = show_int,
      rfc3339_secs = show_int,
      rfc3339_millis = show_int,
      ts_display = show_int,
      ms_between = (\<lambda>a b. if b \<le> a then (a - b) div 1000000 else - ((b - a) div 1000000)),
      secs_between = (\<lambda>a b. if b \<le> a then (a - b) div 1000000000 else - ((b - a) div 1000000000))\<rparr>"

lemma digest_hex64_demo: "digest_is_hex64 demo_extern"
  by (simp add: digest_is_hex64_def demo_extern_def hex_digit_def)

lemma ms_truncates_demo: "ms_truncates demo_extern"
  by (simp add: ms_truncates_def demo_extern_def)

lemma ts_serde_injective_demo: "ts_serde_injective demo_extern"
  unfolding ts_serde_injective_def demo_extern_def extern.simps by (metis read_show_int)

end
