(* ===== verification/Serde.thy ===== *)
theory Serde
  imports Externals SEB_Prelude "HOL-Library.Monad_Syntax"
begin

text \<open>
  What serde's derived \<open>Serialize\<close> and \<open>Deserialize\<close> do, on JSON trees. A derived struct is read from an
  object, whose unknown members are ignored and whose known members must not be repeated, or from an
  array of its fields in the order of their declaration; a missing \<open>Option\<close> of an object is \<open>None\<close>. An enum is
  the name of its variant, or an object with the variant as its only member. \<open>from_str\<close> on a type is the
  parser \<open>json_parse\<close> followed by the reader of the type.
\<close>

section \<open>Reading values\<close>

fun from_string :: "json \<Rightarrow> string option" where
  "from_string (JStr s) = Some s"
| "from_string _ = None"

fun from_bool :: "json \<Rightarrow> bool option" where
  "from_bool (JBool b) = Some b"
| "from_bool _ = None"

fun from_usize :: "json \<Rightarrow> u64 option" where
  "from_usize (JInt n) = (if 0 \<le> n \<and> n < 2 ^ 64 then Some (word_of_int n) else None)"
| "from_usize _ = None"

fun from_vec :: "(json \<Rightarrow> 'a option) \<Rightarrow> json \<Rightarrow> 'a list option" where
  "from_vec f (JArr xs) = those (map f xs)"
| "from_vec f _ = None"

fun from_option :: "(json \<Rightarrow> 'a option) \<Rightarrow> json \<Rightarrow> 'a option option" where
  "from_option f JNull = Some None"
| "from_option f j = map_option Some (f j)"

definition from_time :: "extern \<Rightarrow> json \<Rightarrow> timestamp option" where
  "from_time X j = Option.bind (from_string j) (ts_parse X)"

text \<open>A map: a later member replaces an earlier one with the same name.\<close>

fun from_map :: "(json \<Rightarrow> 'a option) \<Rightarrow> json \<Rightarrow> (string, 'a) fmap option" where
  "from_map f (JObj ms) =
     map_option (\<lambda>kvs. fold (\<lambda>(k, v). fmupd k v) kvs fmempty)
       (those (map (\<lambda>(k, j). map_option (Pair k) (f j)) ms))"
| "from_map f _ = None"

definition map_tree :: "('a \<Rightarrow> json) \<Rightarrow> string list \<Rightarrow> (string, 'a) fmap \<Rightarrow> json" where
  "map_tree f ord m = JObj (map (\<lambda>k. (k, f (the (fmlookup m k)))) ord)"

section \<open>Reading structs and enums\<close>

text \<open>The fields of a struct; in an array only the fields after the first \<open>need\<close> may be left out.\<close>

definition obj_fields :: "string list \<Rightarrow> nat \<Rightarrow> json \<Rightarrow> (string \<rightharpoonup> json) option" where
  "obj_fields names need j =
     (case j of
        JObj ms \<Rightarrow> if distinct (filter (\<lambda>k. k \<in> set names) (map fst ms)) then Some (map_of ms) else None
      | JArr xs \<Rightarrow> if need \<le> length xs \<and> length xs \<le> length names then Some (map_of (zip names xs)) else None
      | _ \<Rightarrow> None)"

definition required :: "(string \<rightharpoonup> json) \<Rightarrow> string \<Rightarrow> (json \<Rightarrow> 'a option) \<Rightarrow> 'a option" where
  "required ms k f = Option.bind (ms k) f"

definition optional :: "(string \<rightharpoonup> json) \<Rightarrow> string \<Rightarrow> (json \<Rightarrow> 'a option) \<Rightarrow> 'a option option" where
  "optional ms k f = (case ms k of None \<Rightarrow> Some None | Some j \<Rightarrow> from_option f j)"

definition defaulted :: "(string \<rightharpoonup> json) \<Rightarrow> string \<Rightarrow> 'a \<Rightarrow> (json \<Rightarrow> 'a option) \<Rightarrow> 'a option" where
  "defaulted ms k d f = (case ms k of None \<Rightarrow> Some d | Some j \<Rightarrow> f j)"

fun variant :: "json \<Rightarrow> (string \<times> json) option" where
  "variant (JStr v) = Some (v, JNull)"
| "variant (JObj [(v, j)]) = Some (v, j)"
| "variant _ = None"

lemmas serde_defs = required_def optional_def defaulted_def from_time_def

section \<open>Documented behaviour\<close>

text \<open>The text of a tree parses back to the tree, in the compact and in the pretty form.\<close>

definition reads_back :: "extern \<Rightarrow> json \<Rightarrow> bool" where
  "reads_back X j \<longleftrightarrow> json_parse X (json_text X j) = Some j"

definition reads_back_pretty :: "extern \<Rightarrow> json \<Rightarrow> bool" where
  "reads_back_pretty X j \<longleftrightarrow> utf8_valid (json_pretty X j) \<and> json_parse X (json_pretty X j) = Some j"

text \<open>A written time is read back.\<close>

definition ts_reads :: "extern \<Rightarrow> bool" where
  "ts_reads X \<longleftrightarrow> (\<forall>t. ts_parse X (ts_serde X t) = Some t)"

lemma ts_reads_demo: "ts_reads demo_extern"
  by (simp add: ts_reads_def demo_extern_def)

section \<open>Round trips of values\<close>

lemma from_option_jopt [simp]: "from_option from_string (jopt x) = Some x"
  by (cases x) (simp_all add: jopt_def)

lemma those_map: "(\<And>x. x \<in> set xs \<Longrightarrow> f (g x) = Some x) \<Longrightarrow> those (map (f \<circ> g) xs) = Some xs"
  by (induction xs) auto

lemma from_usize_word [simp]: "from_usize (JInt (uint (n :: u64))) = Some n"
  using unsigned_less [of n, where ?'a = int] by simp

lemma from_time_serde: "ts_reads X \<Longrightarrow> from_time X (JStr (ts_serde X t)) = Some t"
  by (simp add: from_time_def ts_reads_def)

lemma those_Some_map: "those (map (\<lambda>k. Some (f k)) ks) = Some (map f ks)"
  by (induction ks) auto

lemma fmlookup_fold_upd:
  "fmlookup (fold (\<lambda>k. fmupd k (g k)) ks m) k = (if k \<in> set ks then Some (g k) else fmlookup m k)"
  by (induction ks arbitrary: m) auto

lemma from_map_tree:
  assumes "iter_order ord m" and "\<And>k v. fmlookup m k = Some v \<Longrightarrow> f (g v) = Some v"
  shows "from_map f (map_tree g ord m) = Some m"
proof -
  let ?v = "\<lambda>k. the (fmlookup m k)"
  have "map_option (Pair k) (f (g (?v k))) = Some (k, ?v k)" if "k \<in> set ord" for k
    using that assms by (auto simp: iter_order_def fmlookup_dom_iff)
  then have "map (\<lambda>(k, j). map_option (Pair k) (f j)) (map (\<lambda>k. (k, g (?v k))) ord) = map (\<lambda>k. Some (k, ?v k)) ord"
    by simp
  then have "from_map f (map_tree g ord m) = Some (fold (\<lambda>(k, v). fmupd k v) (map (\<lambda>k. (k, ?v k)) ord) fmempty)"
    by (simp only: map_tree_def from_map.simps those_Some_map option.map)
  also have "fold (\<lambda>(k, v). fmupd k v) (map (\<lambda>k. (k, ?v k)) ord) fmempty = m"
  proof (rule fmap_ext)
    show "fmlookup (fold (\<lambda>(k, v). fmupd k v) (map (\<lambda>k. (k, ?v k)) ord) fmempty) k = fmlookup m k" for k
      using assms(1) by (auto simp: fold_map comp_def fmlookup_fold_upd iter_order_def fmlookup_dom_iff
          intro: sym dest: fmdom_notI)
  qed
  finally show ?thesis .
qed

section \<open>The interface of a derived type\<close>

text \<open>
  A type that is written and read back: what its reader gives on what its writer wrote, for the values the
  type has. It carries over to vectors and maps of the type.
\<close>

locale json_codec =
  fixes wr :: "'a \<Rightarrow> json" and rd :: "json \<Rightarrow> 'a option" and ok :: "'a \<Rightarrow> bool"
  assumes rd_wr: "ok a \<Longrightarrow> rd (wr a) = Some a"
begin

lemma read_vec: "\<forall>x \<in> set xs. ok x \<Longrightarrow> from_vec rd (JArr (map wr xs)) = Some xs"
  by (simp add: those_map rd_wr)

lemma read_map:
  "iter_order ord m \<Longrightarrow> \<forall>k v. fmlookup m k = Some v \<longrightarrow> ok v \<Longrightarrow> from_map rd (map_tree wr ord m) = Some m"
  by (rule from_map_tree) (simp_all add: rd_wr)

lemma wr_inj: "ok a \<Longrightarrow> ok b \<Longrightarrow> wr a = wr b \<Longrightarrow> a = b"
  by (metis option.inject rd_wr)

end

end
