(* ===== verification/Manifest.thy ===== *)
theory Manifest
  imports Serde
begin

text \<open>
  \<open>seb/universe/src/manifest.rs\<close>: the tier and the language of an artifact, its invariants, proofs
  and tests, the manifest that gathers them, the builder methods, and the derived serialization. The
  encodings of the tier and of the language are instances of the \<open>codec\<close> interface.
\<close>

section \<open>Tiers\<close>

datatype artifact_tier = T0 | T1 | T2 | T3

fun tier_as_u8 :: "artifact_tier \<Rightarrow> u8" where
  "tier_as_u8 T0 = 0"
| "tier_as_u8 T1 = 1"
| "tier_as_u8 T2 = 2"
| "tier_as_u8 T3 = 3"

definition tier_from_u8 :: "u8 \<Rightarrow> artifact_tier option" where
  "tier_from_u8 v =
     (if v = 0 then Some T0 else if v = 1 then Some T1 else if v = 2 then Some T2
      else if v = 3 then Some T3 else None)"

fun tier_as_str :: "artifact_tier \<Rightarrow> string" where
  "tier_as_str T0 = ''T0''"
| "tier_as_str T1 = ''T1''"
| "tier_as_str T2 = ''T2''"
| "tier_as_str T3 = ''T3''"

text \<open>The derived order is that of the discriminants.\<close>

instantiation artifact_tier :: linorder
begin

definition less_eq_artifact_tier :: "artifact_tier \<Rightarrow> artifact_tier \<Rightarrow> bool" where
  "less_eq_artifact_tier a b \<longleftrightarrow> tier_as_u8 a \<le> tier_as_u8 b"

definition less_artifact_tier :: "artifact_tier \<Rightarrow> artifact_tier \<Rightarrow> bool" where
  "less_artifact_tier a b \<longleftrightarrow> tier_as_u8 a < tier_as_u8 b"

instance
proof
  fix a b :: artifact_tier
  show "a \<le> b \<Longrightarrow> b \<le> a \<Longrightarrow> a = b"
    by (cases a; cases b) (auto simp: less_eq_artifact_tier_def word_le_nat_alt)
qed (auto simp: less_eq_artifact_tier_def less_artifact_tier_def)

end

interpretation tier_codec: codec tier_as_u8 tier_from_u8 "\<lambda>_. True"
proof
  show "tier_from_u8 (tier_as_u8 x) = Some x" for x
    by (cases x) (simp_all add: tier_from_u8_def)
  show "tier_from_u8 c = Some x \<Longrightarrow> tier_as_u8 x = c \<and> True" for c x
    by (auto simp: tier_from_u8_def split: if_splits)
qed

lemma UNIV_artifact_tier: "(UNIV :: artifact_tier set) = {T0, T1, T2, T3}"
  by (auto intro: artifact_tier.exhaust)

section \<open>Languages\<close>

datatype language = Rust | Lean4 | Ada | PL1 | Prolog | Haskell | Other string

fun lang_as_str :: "language \<Rightarrow> string" where
  "lang_as_str Rust = ''rust''"
| "lang_as_str Lean4 = ''lean4''"
| "lang_as_str Ada = ''ada''"
| "lang_as_str PL1 = ''pl1''"
| "lang_as_str Prolog = ''prolog''"
| "lang_as_str Haskell = ''haskell''"
| "lang_as_str (Other s) = s"

definition lang_from_str :: "string \<Rightarrow> language" where
  "lang_from_str s =
     (if s = ''rust'' then Rust else if s = ''lean4'' then Lean4 else if s = ''ada'' then Ada
      else if s = ''pl1'' then PL1 else if s = ''prolog'' then Prolog
      else if s = ''haskell'' then Haskell else Other s)"

text \<open>The canonical languages: \<open>Other\<close> does not carry the name of a known one.\<close>

fun lang_canonical :: "language \<Rightarrow> bool" where
  "lang_canonical (Other s) \<longleftrightarrow>
     s \<notin> {''rust'', ''lean4'', ''ada'', ''pl1'', ''prolog'', ''haskell''}"
| "lang_canonical _ \<longleftrightarrow> True"

interpretation lang_codec: codec lang_as_str "\<lambda>s. Some (lang_from_str s)" lang_canonical
proof
  show "lang_canonical l \<Longrightarrow> Some (lang_from_str (lang_as_str l)) = Some l" for l
    by (cases l) (simp_all add: lang_from_str_def)
  show "Some (lang_from_str c) = Some l \<Longrightarrow> lang_as_str l = c \<and> lang_canonical l" for c l
    by (auto simp: lang_from_str_def split: if_splits)
qed

section \<open>Manifests\<close>

record invariant =
  inv_name :: string
  inv_description :: string
  proof_reference :: "string option"

definition invariant_new :: "string \<Rightarrow> string \<Rightarrow> invariant" where
  "invariant_new name description =
     \<lparr>inv_name = name, inv_description = description, proof_reference = None\<rparr>"

definition invariant_with_proof :: "string \<Rightarrow> invariant \<Rightarrow> invariant" where
  "invariant_with_proof p i = i\<lparr>proof_reference := Some p\<rparr>"

record proof_metadata =
  proof_id :: string
  proof_language :: string
  proof_hash :: string
  proof_created_at :: timestamp

record test_metadata =
  test_id :: string
  test_framework :: string
  test_pass_count :: u64
  test_last_run :: timestamp

record artifact_manifest =
  artifact_id :: string
  art_name :: string
  art_version :: string
  art_language :: language
  tier :: artifact_tier
  invariants :: "invariant list"
  proofs :: "proof_metadata list"
  tests :: "test_metadata list"
  source_path :: "string option"
  doc_url :: "string option"
  content_hash :: string
  cvm_gate_passed :: bool
  art_created_at :: timestamp
  art_updated_at :: timestamp
  metadata :: "(string, json) fmap"

text \<open>\<open>now1\<close> and \<open>now2\<close> are the two readings of the clock, for \<open>created_at\<close> and \<open>updated_at\<close>.\<close>

definition artifact_new ::
    "timestamp \<Rightarrow> timestamp \<Rightarrow> string \<Rightarrow> string \<Rightarrow> string \<Rightarrow> string \<Rightarrow> u8 \<Rightarrow> artifact_manifest" where
  "artifact_new now1 now2 aid name version language t =
     \<lparr>artifact_id = aid, art_name = name, art_version = version,
      art_language = lang_from_str language,
      tier = (case tier_from_u8 t of Some e \<Rightarrow> e | None \<Rightarrow> T2),
      invariants = [], proofs = [], tests = [], source_path = None, doc_url = None,
      content_hash = [], cvm_gate_passed = False, art_created_at = now1, art_updated_at = now2,
      metadata = fmempty\<rparr>"

definition add_invariant :: "invariant \<Rightarrow> artifact_manifest \<Rightarrow> artifact_manifest" where
  "add_invariant i a = a\<lparr>invariants := invariants a @ [i]\<rparr>"

definition add_proof :: "proof_metadata \<Rightarrow> artifact_manifest \<Rightarrow> artifact_manifest" where
  "add_proof p a = a\<lparr>proofs := proofs a @ [p]\<rparr>"

definition add_test :: "test_metadata \<Rightarrow> artifact_manifest \<Rightarrow> artifact_manifest" where
  "add_test t a = a\<lparr>tests := tests a @ [t]\<rparr>"

definition with_source_path :: "string \<Rightarrow> artifact_manifest \<Rightarrow> artifact_manifest" where
  "with_source_path p a = a\<lparr>source_path := Some p\<rparr>"

definition with_doc_url :: "string \<Rightarrow> artifact_manifest \<Rightarrow> artifact_manifest" where
  "with_doc_url u a = a\<lparr>doc_url := Some u\<rparr>"

definition compute_hash :: "extern \<Rightarrow> timestamp \<Rightarrow> string \<Rightarrow> artifact_manifest \<Rightarrow> artifact_manifest" where
  "compute_hash X now content a = a\<lparr>content_hash := blake3_hex X content, art_updated_at := now\<rparr>"

definition verify_invariants_covered :: "artifact_manifest \<Rightarrow> bool" where
  "verify_invariants_covered a = list_all (\<lambda>i. proof_reference i \<noteq> None) (invariants a)"

definition get_lean_proofs :: "artifact_manifest \<Rightarrow> string list" where
  "get_lean_proofs a = map proof_id (filter (\<lambda>p. proof_language p = ''lean4'') (proofs a))"

definition mark_cvm_passed :: "timestamp \<Rightarrow> artifact_manifest \<Rightarrow> artifact_manifest" where
  "mark_cvm_passed now a = a\<lparr>cvm_gate_passed := True, art_updated_at := now\<rparr>"

definition artifact_to_json_ld :: "extern \<Rightarrow> artifact_manifest \<Rightarrow> json" where
  "artifact_to_json_ld X a = jmap
     [(''@context'', JStr ''https://www.w3.org/ns/activitystreams''),
      (''@id'', JStr (''artifact:'' @ artifact_id a)),
      (''@type'', JStr ''Artifact''),
      (''name'', JStr (art_name a)),
      (''version'', JStr (art_version a)),
      (''tier'', JStr (tier_as_str (tier a))),
      (''language'', JStr (lang_as_str (art_language a))),
      (''invariants'', JArr (map (\<lambda>i. jmap
         [(''name'', JStr (inv_name i)),
          (''description'', JStr (inv_description i)),
          (''proof'', jopt (proof_reference i))]) (invariants a))),
      (''proofs'', JInt (int (length (proofs a)))),
      (''tests'', JInt (int (length (tests a)))),
      (''hash'', JStr (content_hash a)),
      (''cvm_gate_passed'', JBool (cvm_gate_passed a)),
      (''created'', JStr (to_rfc3339 X (art_created_at a))),
      (''updated'', JStr (to_rfc3339 X (art_updated_at a)))]"

lemmas manifest_builder_defs =
  artifact_new_def add_invariant_def add_proof_def add_test_def with_source_path_def
  with_doc_url_def compute_hash_def mark_cvm_passed_def invariant_new_def invariant_with_proof_def

lemma verify_invariants_covered_add [simp]:
  "verify_invariants_covered (add_invariant i a) \<longleftrightarrow>
     verify_invariants_covered a \<and> proof_reference i \<noteq> None"
  by (auto simp: verify_invariants_covered_def add_invariant_def)

lemma get_lean_proofs_Nil_iff:
  "get_lean_proofs a = [] \<longleftrightarrow> (\<forall>p \<in> set (proofs a). proof_language p \<noteq> ''lean4'')"
  by (auto simp: get_lean_proofs_def filter_empty_conv)

section \<open>The derived serialization\<close>

definition tier_to_json :: "artifact_tier \<Rightarrow> json" where
  "tier_to_json t = JStr (case t of T0 \<Rightarrow> ''T0'' | T1 \<Rightarrow> ''T1'' | T2 \<Rightarrow> ''T2'' | T3 \<Rightarrow> ''T3'')"

definition tier_from_json :: "json \<Rightarrow> artifact_tier option" where
  "tier_from_json j = do {
     (v, x) \<leftarrow> variant j;
     if x \<noteq> JNull then None
     else if v = ''T0'' then Some T0 else if v = ''T1'' then Some T1
     else if v = ''T2'' then Some T2 else if v = ''T3'' then Some T3 else None }"

fun lang_to_json :: "language \<Rightarrow> json" where
  "lang_to_json Rust = JStr ''Rust''"
| "lang_to_json Lean4 = JStr ''Lean4''"
| "lang_to_json Ada = JStr ''Ada''"
| "lang_to_json PL1 = JStr ''PL1''"
| "lang_to_json Prolog = JStr ''Prolog''"
| "lang_to_json Haskell = JStr ''Haskell''"
| "lang_to_json (Other s) = JObj [(''Other'', JStr s)]"

definition lang_from_json :: "json \<Rightarrow> language option" where
  "lang_from_json j = do {
     (v, x) \<leftarrow> variant j;
     if v = ''Other'' then map_option Other (from_string x)
     else if x \<noteq> JNull then None
     else if v = ''Rust'' then Some Rust else if v = ''Lean4'' then Some Lean4
     else if v = ''Ada'' then Some Ada else if v = ''PL1'' then Some PL1
     else if v = ''Prolog'' then Some Prolog else if v = ''Haskell'' then Some Haskell else None }"

definition invariant_to_json :: "invariant \<Rightarrow> json" where
  "invariant_to_json i =
     JObj [(''name'', JStr (inv_name i)), (''description'', JStr (inv_description i)),
           (''proof_reference'', jopt (proof_reference i))]"

definition invariant_from_json :: "json \<Rightarrow> invariant option" where
  "invariant_from_json j = do {
     ms \<leftarrow> obj_fields [''name'', ''description'', ''proof_reference''] 3 j;
     n \<leftarrow> required ms ''name'' from_string;
     d \<leftarrow> required ms ''description'' from_string;
     p \<leftarrow> optional ms ''proof_reference'' from_string;
     Some \<lparr>inv_name = n, inv_description = d, proof_reference = p\<rparr> }"

definition proof_to_json :: "extern \<Rightarrow> proof_metadata \<Rightarrow> json" where
  "proof_to_json X p =
     JObj [(''id'', JStr (proof_id p)), (''language'', JStr (proof_language p)),
           (''hash'', JStr (proof_hash p)), (''created_at'', JStr (ts_serde X (proof_created_at p)))]"

definition proof_from_json :: "extern \<Rightarrow> json \<Rightarrow> proof_metadata option" where
  "proof_from_json X j = do {
     ms \<leftarrow> obj_fields [''id'', ''language'', ''hash'', ''created_at''] 4 j;
     i \<leftarrow> required ms ''id'' from_string;
     l \<leftarrow> required ms ''language'' from_string;
     h \<leftarrow> required ms ''hash'' from_string;
     c \<leftarrow> required ms ''created_at'' (from_time X);
     Some \<lparr>proof_id = i, proof_language = l, proof_hash = h, proof_created_at = c\<rparr> }"

definition test_to_json :: "extern \<Rightarrow> test_metadata \<Rightarrow> json" where
  "test_to_json X t =
     JObj [(''id'', JStr (test_id t)), (''framework'', JStr (test_framework t)),
           (''pass_count'', JInt (uint (test_pass_count t))),
           (''last_run'', JStr (ts_serde X (test_last_run t)))]"

definition test_from_json :: "extern \<Rightarrow> json \<Rightarrow> test_metadata option" where
  "test_from_json X j = do {
     ms \<leftarrow> obj_fields [''id'', ''framework'', ''pass_count'', ''last_run''] 4 j;
     i \<leftarrow> required ms ''id'' from_string;
     fw \<leftarrow> required ms ''framework'' from_string;
     n \<leftarrow> required ms ''pass_count'' from_usize;
     r \<leftarrow> required ms ''last_run'' (from_time X);
     Some \<lparr>test_id = i, test_framework = fw, test_pass_count = n, test_last_run = r\<rparr> }"

text \<open>\<open>ord\<close> is the order of the metadata map. A \<open>serde_json::Value\<close> is read as by \<open>to_value\<close>.\<close>

definition artifact_to_json :: "extern \<Rightarrow> string list \<Rightarrow> artifact_manifest \<Rightarrow> json" where
  "artifact_to_json X ord a =
     JObj [(''artifact_id'', JStr (artifact_id a)),
           (''name'', JStr (art_name a)),
           (''version'', JStr (art_version a)),
           (''language'', lang_to_json (art_language a)),
           (''tier'', tier_to_json (tier a)),
           (''invariants'', JArr (map invariant_to_json (invariants a))),
           (''proofs'', JArr (map (proof_to_json X) (proofs a))),
           (''tests'', JArr (map (test_to_json X) (tests a))),
           (''source_path'', jopt (source_path a)),
           (''doc_url'', jopt (doc_url a)),
           (''content_hash'', JStr (content_hash a)),
           (''cvm_gate_passed'', JBool (cvm_gate_passed a)),
           (''created_at'', JStr (ts_serde X (art_created_at a))),
           (''updated_at'', JStr (ts_serde X (art_updated_at a))),
           (''metadata'', map_tree id ord (metadata a))]"

definition artifact_from_json :: "extern \<Rightarrow> json \<Rightarrow> artifact_manifest option" where
  "artifact_from_json X j = do {
     ms \<leftarrow> obj_fields
       [''artifact_id'', ''name'', ''version'', ''language'', ''tier'', ''invariants'', ''proofs'', ''tests'',
        ''source_path'', ''doc_url'', ''content_hash'', ''cvm_gate_passed'', ''created_at'', ''updated_at'',
        ''metadata''] 14 j;
     aid \<leftarrow> required ms ''artifact_id'' from_string;
     nm \<leftarrow> required ms ''name'' from_string;
     vs \<leftarrow> required ms ''version'' from_string;
     lg \<leftarrow> required ms ''language'' lang_from_json;
     tr \<leftarrow> required ms ''tier'' tier_from_json;
     ivs \<leftarrow> required ms ''invariants'' (from_vec invariant_from_json);
     prs \<leftarrow> required ms ''proofs'' (from_vec (proof_from_json X));
     tst \<leftarrow> required ms ''tests'' (from_vec (test_from_json X));
     src \<leftarrow> optional ms ''source_path'' from_string;
     doc \<leftarrow> optional ms ''doc_url'' from_string;
     hs \<leftarrow> required ms ''content_hash'' from_string;
     ps \<leftarrow> defaulted ms ''cvm_gate_passed'' False from_bool;
     cr \<leftarrow> required ms ''created_at'' (from_time X);
     up \<leftarrow> required ms ''updated_at'' (from_time X);
     md \<leftarrow> defaulted ms ''metadata'' fmempty (from_map (\<lambda>v. Some (to_value v)));
     Some \<lparr>artifact_id = aid, art_name = nm, art_version = vs, art_language = lg, tier = tr,
           invariants = ivs, proofs = prs, tests = tst, source_path = src, doc_url = doc,
           content_hash = hs, cvm_gate_passed = ps, art_created_at = cr, art_updated_at = up,
           metadata = md\<rparr> }"

text \<open>The values of the metadata are \<open>Value\<close>s, whose objects are maps.\<close>

definition proper_metadata :: "artifact_manifest \<Rightarrow> bool" where
  "proper_metadata a \<longleftrightarrow> (\<forall>k v. fmlookup (metadata a) k = Some v \<longrightarrow> to_value v = v)"

interpretation tier_json: json_codec tier_to_json tier_from_json "\<lambda>_. True"
  by unfold_locales (auto simp: tier_from_json_def tier_to_json_def split: artifact_tier.splits)

lemma lang_from_json_to [simp]: "lang_from_json (lang_to_json l) = Some l"
  by (cases l) (simp_all add: lang_from_json_def)

interpretation lang_json: json_codec lang_to_json lang_from_json "\<lambda>_. True"
  by unfold_locales simp

interpretation invariant_json: json_codec invariant_to_json invariant_from_json "\<lambda>_. True"
  by unfold_locales (simp add: invariant_from_json_def invariant_to_json_def obj_fields_def serde_defs)

interpretation proof_json: json_codec "proof_to_json X" "proof_from_json X" "\<lambda>_. ts_reads X" for X
  by unfold_locales (simp add: proof_from_json_def proof_to_json_def obj_fields_def serde_defs ts_reads_def)

interpretation test_json: json_codec "test_to_json X" "test_from_json X" "\<lambda>_. ts_reads X" for X
  by unfold_locales
    (simp add: test_from_json_def test_to_json_def obj_fields_def serde_defs ts_reads_def del: from_usize.simps)

text \<open>A metadata value, read as by \<open>to_value\<close>.\<close>

interpretation value_json: json_codec id "\<lambda>v. Some (to_value v)" "\<lambda>v. to_value v = v"
  by unfold_locales simp

lemmas part_reads =
  tier_json.rd_wr invariant_json.read_vec proof_json.read_vec test_json.read_vec

text \<open>\<open>mord\<close> gives the order of the metadata of each artifact.\<close>

interpretation artifact_json:
  json_codec "\<lambda>a. artifact_to_json X (mord (artifact_id a)) a" "artifact_from_json X"
    "\<lambda>a. ts_reads X \<and> iter_order (mord (artifact_id a)) (metadata a) \<and> proper_metadata a"
  for X mord
proof
  fix a assume ok: "ts_reads X \<and> iter_order (mord (artifact_id a)) (metadata a) \<and> proper_metadata a"
  then have "from_map (\<lambda>v. Some (to_value v)) (map_tree id (mord (artifact_id a)) (metadata a)) = Some (metadata a)"
    by (intro value_json.read_map) (simp_all add: proper_metadata_def)
  with ok show "artifact_from_json X (artifact_to_json X (mord (artifact_id a)) a) = Some a"
    by (simp add: artifact_from_json_def artifact_to_json_def obj_fields_def serde_defs part_reads ts_reads_def
        del: from_vec.simps)
qed

text \<open>A manifest without the gate flag and the metadata is read with their defaults: it has not passed.\<close>

lemma artifact_json_defaults:
  assumes "ts_reads X"
  shows "artifact_from_json X (JObj (filter (\<lambda>(k, v). k \<noteq> ''cvm_gate_passed'' \<and> k \<noteq> ''metadata'')
      (members (artifact_to_json X ord a)))) =
    Some (a\<lparr>cvm_gate_passed := False, metadata := fmempty\<rparr>)"
  using assms
  by (simp add: artifact_from_json_def artifact_to_json_def obj_fields_def serde_defs part_reads ts_reads_def
      del: from_vec.simps)

section \<open>Properties\<close>

text \<open>
  C23: the derived serialization of a manifest is a round trip, with its tier, language, invariants, proofs,
  tests and metadata, whatever the order of the metadata map. A manifest without the gate flag and the
  metadata is read too, with their defaults: it has not passed the gate.
\<close>

theorem artifact_serde:
  assumes "ts_reads X" and "iter_order ord (metadata a)" and "proper_metadata a"
  shows "artifact_from_json X (artifact_to_json X ord a) = Some a \<and>
    artifact_from_json X (JObj (filter (\<lambda>(k, v). k \<noteq> ''cvm_gate_passed'' \<and> k \<noteq> ''metadata'')
      (members (artifact_to_json X ord a)))) = Some (a\<lparr>cvm_gate_passed := False, metadata := fmempty\<rparr>)"
  using artifact_json.rd_wr [of X "\<lambda>_. ord" a] artifact_json_defaults [OF assms(1)] assms by simp

theorem artifact_serde_witness:
  "artifact_from_json demo_extern (artifact_to_json demo_extern []
     (mark_cvm_passed 2 (add_invariant (invariant_new ''i'' ''d'') (artifact_new 0 1 ''a'' ''n'' ''1'' ''cobol'' 2)))) =
   Some (mark_cvm_passed 2 (add_invariant (invariant_new ''i'' ''d'') (artifact_new 0 1 ''a'' ''n'' ''1'' ''cobol'' 2)))"
  by (rule artifact_serde [THEN conjunct1])
    (simp_all add: ts_reads_demo manifest_builder_defs proper_metadata_def)

end
