(* ===== verification/Search_Substrate.thy ===== *)
theory Search_Substrate
  imports Manifest
begin

text \<open>
  \<open>seb/universe/src/search_substrate.rs\<close>: the repository file and the universe of artifacts, a store
  by identifier with three indexes (by invariant, tier and language) of identifiers. An index is
  only ever pushed to: what the queries return is stated exactly, for any history of additions.
\<close>

section \<open>State\<close>

record repository_manifest =
  repo_version :: string
  repo_created_at :: string
  repo_artifacts :: "(string, artifact_manifest) fmap"

definition repository_new :: "extern \<Rightarrow> timestamp \<Rightarrow> repository_manifest" where
  "repository_new X now =
     \<lparr>repo_version = ''1.0.0'', repo_created_at = to_rfc3339 X now, repo_artifacts = fmempty\<rparr>"

definition repository_add_artifact ::
    "artifact_manifest \<Rightarrow> repository_manifest \<Rightarrow> repository_manifest" where
  "repository_add_artifact a r =
     r\<lparr>repo_artifacts := fmupd (artifact_id a) a (repo_artifacts r)\<rparr>"

record universe =
  artifacts :: "(string, artifact_manifest) fmap"
  invariant_index :: "(string, string list) fmap"
  tier_index :: "(artifact_tier, string list) fmap"
  language_index :: "(string, string list) fmap"

definition universe_new :: universe where
  "universe_new =
     \<lparr>artifacts = fmempty, invariant_index = fmempty, tier_index = fmempty,
      language_index = fmempty\<rparr>"

section \<open>Operations\<close>

definition add_artifact :: "artifact_manifest \<Rightarrow> universe \<Rightarrow> universe" where
  "add_artifact a u =
     \<lparr>artifacts = fmupd (artifact_id a) a (artifacts u),
      invariant_index =
        fold (\<lambda>i. mm_push (inv_name i) (artifact_id a)) (invariants a) (invariant_index u),
      tier_index = mm_push (tier a) (artifact_id a) (tier_index u),
      language_index = mm_push (lang_as_str (art_language a)) (artifact_id a) (language_index u)\<rparr>"

text \<open>\<open>ids.iter().filter_map(|id| self.artifacts.get(id).cloned())\<close>\<close>

definition resolve :: "universe \<Rightarrow> string list \<Rightarrow> artifact_manifest list" where
  "resolve u ids = List.map_filter (fmlookup (artifacts u)) ids"

definition query_by_invariant :: "universe \<Rightarrow> string \<Rightarrow> artifact_manifest list" where
  "query_by_invariant u name =
     (case fmlookup (invariant_index u) name of None \<Rightarrow> [] | Some ids \<Rightarrow> resolve u ids)"

definition query_by_tier :: "universe \<Rightarrow> artifact_tier \<Rightarrow> artifact_manifest list" where
  "query_by_tier u t =
     (case fmlookup (tier_index u) t of None \<Rightarrow> [] | Some ids \<Rightarrow> resolve u ids)"

definition query_by_language :: "universe \<Rightarrow> string \<Rightarrow> artifact_manifest list" where
  "query_by_language u l =
     (case fmlookup (language_index u) l of None \<Rightarrow> [] | Some ids \<Rightarrow> resolve u ids)"

definition get_artifact :: "universe \<Rightarrow> string \<Rightarrow> artifact_manifest option" where
  "get_artifact u aid = fmlookup (artifacts u) aid"

definition get_all :: "string list \<Rightarrow> universe \<Rightarrow> artifact_manifest list" where
  "get_all ord u = hm_values ord (artifacts u)"

definition get_t0 :: "universe \<Rightarrow> artifact_manifest list" where
  "get_t0 u = query_by_tier u T0"

definition get_t1 :: "universe \<Rightarrow> artifact_manifest list" where
  "get_t1 u = query_by_tier u T1"

definition get_t2 :: "universe \<Rightarrow> artifact_manifest list" where
  "get_t2 u = query_by_tier u T2"

definition get_t3 :: "universe \<Rightarrow> artifact_manifest list" where
  "get_t3 u = query_by_tier u T3"

text \<open>\<open>lower\<close> is \<open>str::to_lowercase\<close>, whose tables are those of Unicode.\<close>

definition search_by_name ::
    "(string \<Rightarrow> string) \<Rightarrow> string list \<Rightarrow> universe \<Rightarrow> string \<Rightarrow> artifact_manifest list" where
  "search_by_name lower ord u query =
     filter (\<lambda>a. str_contains (lower (art_name a)) (lower query)) (hm_values ord (artifacts u))"

text \<open>
  The derived serialization of a repository: \<open>rord\<close> is the order of its map, \<open>mord\<close> gives the order of the
  metadata of each artifact.
\<close>

definition repository_to_json ::
    "extern \<Rightarrow> (string \<Rightarrow> string list) \<Rightarrow> string list \<Rightarrow> repository_manifest \<Rightarrow> json" where
  "repository_to_json X mord rord r =
     JObj [(''version'', JStr (repo_version r)), (''created_at'', JStr (repo_created_at r)),
           (''artifacts'', map_tree (\<lambda>a. artifact_to_json X (mord (artifact_id a)) a) rord (repo_artifacts r))]"





text \<open>The repository that \<open>save_to_file\<close> builds from the stored artifacts.\<close>

definition saved_repository ::
    "extern \<Rightarrow> timestamp \<Rightarrow> string list \<Rightarrow> universe \<Rightarrow> repository_manifest" where
  "saved_repository X now ord u =
     fold repository_add_artifact (hm_values ord (artifacts u)) (repository_new X now)"



definition statistics :: "string list \<Rightarrow> universe \<Rightarrow> (string, json) fmap" where
  "statistics ord u =
     fold (\<lambda>(k, v). fmupd k (JInt (int v)))
       [(''total_artifacts'', hm_len (artifacts u)),
        (''t0_count'', length (get_t0 u)),
        (''t1_count'', length (get_t1 u)),
        (''t2_count'', length (get_t2 u)),
        (''t3_count'', length (get_t3 u)),
        (''cvm_gate_passed'', length (filter cvm_gate_passed (hm_values ord (artifacts u)))),
        (''invariants'', hm_len (invariant_index u)),
        (''languages'', hm_len (language_index u))]
       fmempty"

section \<open>The stores as interfaces\<close>

interpretation univ_store: keyed_store add_artifact get_artifact artifact_id
  by unfold_locales (simp add: add_artifact_def get_artifact_def)


section \<open>What the queries return\<close>

lemma get_artifact_new [simp]: "get_artifact universe_new k = None"
  by (simp add: get_artifact_def universe_new_def)

lemma resolve_get: "resolve u ids = List.map_filter (get_artifact u) ids"
  by (simp add: resolve_def get_artifact_def [abs_def])

lemma query_mm:
  "query_by_tier u t = resolve u (mm_get (tier_index u) t)"
  "query_by_language u l = resolve u (mm_get (language_index u) l)"
  "query_by_invariant u i = resolve u (mm_get (invariant_index u) i)"
  by (auto simp: query_by_tier_def query_by_language_def query_by_invariant_def mm_get_def
      resolve_def map_filter_simps split: option.splits)

interpretation tier_index:
  indexed_log add_artifact "\<lambda>u. mm_get (tier_index u)" tier artifact_id
  by unfold_locales (auto simp: add_artifact_def)

interpretation language_index:
  indexed_log add_artifact "\<lambda>u. mm_get (language_index u)" "\<lambda>a. lang_as_str (art_language a)" artifact_id
  by unfold_locales (auto simp: add_artifact_def)

lemma invariant_index_add:
  "mm_get (invariant_index (add_artifact a u)) n =
     mm_get (invariant_index u) n @
     map (\<lambda>_. artifact_id a) (filter (\<lambda>i. inv_name i = n) (invariants a))"
  using mm_get_fold_push [where key = inv_name and val = "\<lambda>_. artifact_id a"]
  by (simp add: add_artifact_def)

lemma invariant_index_fold:
  "mm_get (invariant_index (fold add_artifact as u)) n =
     mm_get (invariant_index u) n @
     concat (map (\<lambda>a. map (\<lambda>_. artifact_id a) (filter (\<lambda>i. inv_name i = n) (invariants a))) as)"
  by (induction as arbitrary: u) (auto simp: invariant_index_add)

text \<open>The latest artifact added under the identifier of \<open>a\<close>.\<close>

definition latest :: "artifact_manifest list \<Rightarrow> artifact_manifest \<Rightarrow> artifact_manifest" where
  "latest as a = the (List.find (\<lambda>b. artifact_id b = artifact_id a) (rev as))"

lemma get_artifact_latest:
  assumes "a \<in> set as"
  shows "get_artifact (fold add_artifact as u) (artifact_id a) = Some (latest as a)"
proof -
  from assms have "List.find (\<lambda>b. artifact_id b = artifact_id a) (rev as) \<noteq> None"
    by (auto simp: find_None_iff)
  then show ?thesis by (auto simp: univ_store.get_fold latest_def)
qed

lemma resolve_fold:
  assumes "set bs \<subseteq> set as"
  shows "resolve (fold add_artifact as u) (map artifact_id bs) = map (latest as) bs"
  using assms
  by (induction bs) (auto simp: resolve_get map_filter_simps get_artifact_latest)

lemma latest_distinct:
  assumes "distinct (map artifact_id as)" and "a \<in> set as"
  shows "latest as a = a"
proof -
  from assms(1) have "distinct (map artifact_id (rev as))" by (simp add: rev_map [symmetric])
  with assms(2) show ?thesis by (simp add: latest_def find_unique)
qed






lemma fmdom_artifacts_fold:
  "fset (fmdom (artifacts (fold add_artifact as u))) = fset (fmdom (artifacts u)) \<union> artifact_id ` set as"
  by (induction as arbitrary: u) (auto simp: add_artifact_def)

lemma query_by_tier_fold:
  "query_by_tier (fold add_artifact as universe_new) t =
     map (latest as) (filter (\<lambda>a. tier a = t) as)"
  by (simp add: query_mm tier_index.query_fold resolve_fold universe_new_def)

lemma query_by_language_fold:
  "query_by_language (fold add_artifact as universe_new) l =
     map (latest as) (filter (\<lambda>a. lang_as_str (art_language a) = l) as)"
  by (simp add: query_mm language_index.query_fold resolve_fold universe_new_def)

lemma query_by_invariant_fold:
  "query_by_invariant (fold add_artifact as universe_new) n =
     concat (map (\<lambda>a. map (\<lambda>_. latest as a) (filter (\<lambda>i. inv_name i = n) (invariants a))) as)"
proof -
  let ?bs = "concat (map (\<lambda>a. map (\<lambda>_. a) (filter (\<lambda>i. inv_name i = n) (invariants a))) as)"
  have "concat (map (\<lambda>a. map (\<lambda>_. artifact_id a) (filter (\<lambda>i. inv_name i = n) (invariants a))) as)
      = map artifact_id ?bs"
    by (simp add: map_concat comp_def)
  moreover have "set ?bs \<subseteq> set as" by auto
  then have "resolve (fold add_artifact as universe_new) (map artifact_id ?bs) = map (latest as) ?bs"
    by (rule resolve_fold)
  moreover have "mm_get (invariant_index universe_new) n = []" by (simp add: universe_new_def)
  ultimately show ?thesis
    by (simp add: query_mm invariant_index_fold map_concat comp_def)
qed

lemma map_latest_distinct:
  assumes "distinct (map artifact_id as)"
  shows "map (latest as) (filter P as) = filter P as"
  using latest_distinct [OF assms] by (intro map_idI) auto

section \<open>Properties\<close>

text \<open>
  C9: what the indexes answer, for any history of additions from an empty universe. A query by tier,
  by language or by invariant returns one result for every past addition that matched, in the order
  of the additions, and each result is the latest artifact added under that identifier.
\<close>

theorem universe_queries:
  "query_by_tier (fold add_artifact as universe_new) t =
     map (latest as) (filter (\<lambda>a. tier a = t) as) \<and>
   query_by_language (fold add_artifact as universe_new) l =
     map (latest as) (filter (\<lambda>a. lang_as_str (art_language a) = l) as) \<and>
   query_by_invariant (fold add_artifact as universe_new) n =
     concat (map (\<lambda>a. map (\<lambda>_. latest as a) (filter (\<lambda>i. inv_name i = n) (invariants a))) as)"
  by (simp add: query_by_tier_fold query_by_language_fold query_by_invariant_fold)

text \<open>
  If no identifier is added twice, the queries by tier and by language are exact: the matching
  artifacts, once each, in the order of their addition.
\<close>

lemma universe_queries_exact:
  assumes "distinct (map artifact_id as)"
  shows "query_by_tier (fold add_artifact as universe_new) t = filter (\<lambda>a. tier a = t) as \<and>
    query_by_language (fold add_artifact as universe_new) l =
      filter (\<lambda>a. lang_as_str (art_language a) = l) as"
  using assms by (simp_all add: query_by_tier_fold query_by_language_fold map_latest_distinct)

definition demo_artifact :: "string \<Rightarrow> u8 \<Rightarrow> artifact_manifest" where
  "demo_artifact aid t = artifact_new 0 0 aid ''demo'' ''1.0.0'' ''rust'' t"

lemma universe_queries_exact_witness:
  "query_by_tier (fold add_artifact [demo_artifact ''a'' 0, demo_artifact ''b'' 2] universe_new) T2 =
     [demo_artifact ''b'' 2]"
proof -
  have d: "distinct (map artifact_id [demo_artifact ''a'' 0, demo_artifact ''b'' 2])"
    by (simp add: demo_artifact_def artifact_new_def)
  show ?thesis
    using universe_queries_exact [OF d, of T2]
    by (simp add: demo_artifact_def artifact_new_def tier_from_u8_def)
qed

text \<open>
  An index entry outlives the tier it was made for. Whatever the universe holds, after a T2
  artifact and then its promoted copy are added, the query for T2 still answers with the promoted
  copy, whose tier is T1.
\<close>

lemma promoted_artifact_stays_in_t2:
  assumes "tier a = T2"
  shows "a\<lparr>tier := T1\<rparr> \<in> set (get_t2 (add_artifact (a\<lparr>tier := T1\<rparr>) (add_artifact a u)))"
  using assms
  by (simp add: get_t2_def query_mm tier_index.query_push resolve_get List.map_filter_def univ_store.get_put)

lemma promoted_artifact_stays_in_t2_witness:
  "(demo_artifact ''a'' 2)\<lparr>tier := T1\<rparr>
     \<in> set (get_t2 (add_artifact ((demo_artifact ''a'' 2)\<lparr>tier := T1\<rparr>)
                     (add_artifact (demo_artifact ''a'' 2) universe_new)))"
  by (rule promoted_artifact_stays_in_t2)
    (simp add: demo_artifact_def artifact_new_def tier_from_u8_def)


text \<open>A universe whose T2 index is stale, saved and loaded.\<close>

definition demo_universe :: universe where
  "demo_universe =
     fold add_artifact [demo_artifact ''a'' 2, (demo_artifact ''a'' 2)\<lparr>tier := T1\<rparr>] universe_new"

lemma demo_universe_order: "iter_order [''a''] (artifacts demo_universe)"
  by (simp add: iter_order_def demo_universe_def add_artifact_def universe_new_def demo_artifact_def
      artifact_new_def)


text \<open>A parser that knows the saved repository.\<close>

definition saved_tree :: json where
  "saved_tree = repository_to_json demo_extern (\<lambda>_. []) [''a''] (saved_repository demo_extern 0 [''a''] demo_universe)"

definition load_extern :: extern where
  "load_extern = demo_extern\<lparr>json_parse := (\<lambda>s. if s = ''{}'' then Some saved_tree else None)\<rparr>"

lemma load_extern_simps [simp]:
  "ts_serde load_extern = ts_serde demo_extern" "to_rfc3339 load_extern = to_rfc3339 demo_extern"
  "ts_parse load_extern = ts_parse demo_extern"
  "json_pretty load_extern j = ''{}''" "json_parse load_extern ''{}'' = Some saved_tree"
  by (simp_all add: load_extern_def demo_extern_def)



text \<open>
  The statistics count additions in the tier counts but artifacts in the total: the four tier
  counts add up to the number of additions, the total is the number of different identifiers.
\<close>

lemma statistics_counts:
  assumes "iter_order ord (artifacts (fold add_artifact as universe_new))"
  defines "S \<equiv> statistics ord (fold add_artifact as universe_new)"
  shows "fmlookup S ''total_artifacts'' = Some (JInt (int (card (artifact_id ` set as)))) \<and>
    (\<exists>n0 n1 n2 n3. fmlookup S ''t0_count'' = Some (JInt (int n0)) \<and>
       fmlookup S ''t1_count'' = Some (JInt (int n1)) \<and> fmlookup S ''t2_count'' = Some (JInt (int n2)) \<and>
       fmlookup S ''t3_count'' = Some (JInt (int n3)) \<and> n0 + n1 + n2 + n3 = length as)"
proof -
  let ?n = "\<lambda>t. length (filter (\<lambda>a. tier a = t) as)"
  have "hm_len (artifacts (fold add_artifact as universe_new)) = card (artifact_id ` set as)"
    by (simp add: hm_len_def fcard.rep_eq fmdom_artifacts_fold universe_new_def)
  moreover have "?n T0 + ?n T1 + ?n T2 + ?n T3 = length as"
  proof (induction as)
    case (Cons a as)
    then show ?case by (cases "tier a") simp_all
  qed simp
  ultimately show ?thesis
    by (simp add: S_def statistics_def get_t0_def get_t1_def get_t2_def get_t3_def query_by_tier_fold)
qed

lemma statistics_counts_witness:
  "fmlookup (statistics [''a''] demo_universe) ''total_artifacts'' = Some (JInt 1)"
  using statistics_counts [OF demo_universe_order [unfolded demo_universe_def]]
  by (simp add: demo_universe_def demo_artifact_def artifact_new_def)

end
