(* ===== verification/CVM_Gate.thy ===== *)
theory CVM_Gate
  imports Search_Substrate
begin

text \<open>
  \<open>seb/universe/src/compile_verify_merge.rs\<close>: the compile-verify-merge gate. \<open>process\<close> runs five
  steps in order and stops at the first that fails; \<open>promote\<close> moves an artifact from T2 to T1. The
  clock is a function from the index of a reading to the time read, so every \<open>Utc::now()\<close> of the
  code has its own reading, and a clock that is set back is a possible one.
\<close>

section \<open>Steps and results\<close>

datatype cvm_step = Typecheck | Test | Prove | Review | Merge | Promote

fun step_as_u8 :: "cvm_step \<Rightarrow> u8" where
  "step_as_u8 Typecheck = 1"
| "step_as_u8 Test = 2"
| "step_as_u8 Prove = 3"
| "step_as_u8 Review = 4"
| "step_as_u8 Merge = 5"
| "step_as_u8 Promote = 6"

fun step_description :: "cvm_step \<Rightarrow> string" where
  "step_description Typecheck = ''Typecheck: Verify type safety''"
| "step_description Test = ''Test: Run test suite''"
| "step_description Prove = ''Prove: Verify formal proofs''"
| "step_description Review = ''Review: Security & design review''"
| "step_description Merge = ''Merge: Integrate into universe''"
| "step_description Promote = ''Promote: Advance tier after soak''"

record step_result =
  sr_step :: u8
  sr_passed :: bool
  sr_message :: string
  sr_timestamp :: timestamp
  sr_duration_ms :: u64

record cvm_result =
  res_artifact_id :: string
  res_steps :: "step_result list"
  res_passed :: bool
  res_completed_at :: timestamp
  res_total_duration_ms :: u64

definition cvm_result_new :: "timestamp \<Rightarrow> string \<Rightarrow> cvm_result" where
  "cvm_result_new now aid =
     \<lparr>res_artifact_id = aid, res_steps = [], res_passed = False, res_completed_at = now,
      res_total_duration_ms = 0\<rparr>"

definition cvm_add_step :: "step_result \<Rightarrow> cvm_result \<Rightarrow> cvm_result" where
  "cvm_add_step s r = r\<lparr>res_steps := res_steps r @ [s]\<rparr>"

definition cvm_finalize :: "timestamp \<Rightarrow> bool \<Rightarrow> u64 \<Rightarrow> cvm_result \<Rightarrow> cvm_result" where
  "cvm_finalize now ok total_ms r =
     r\<lparr>res_passed := ok, res_completed_at := now, res_total_duration_ms := total_ms\<rparr>"

definition cvm_summary :: "cvm_result \<Rightarrow> string" where
  "cvm_summary r =
     ''CVMGate: '' @ show_nat (length (filter sr_passed (res_steps r))) @ ''/'' @
     show_nat (length (res_steps r)) @ '' steps passed, '' @
     show_nat (unat (res_total_duration_ms r div 1000)) @ '' seconds''"

record cvm_gate =
  typecheck_strict :: bool

definition cvm_gate_new :: cvm_gate where
  "cvm_gate_new = \<lparr>typecheck_strict = False\<rparr>"

definition cvm_gate_strict :: "cvm_gate \<Rightarrow> cvm_gate" where
  "cvm_gate_strict g = g\<lparr>typecheck_strict := True\<rparr>"

section \<open>The checks\<close>

definition typecheck :: "cvm_gate \<Rightarrow> artifact_manifest \<Rightarrow> bool res" where
  "typecheck g a =
     (if artifact_id a = [] then Inr False
      else if art_name a = [] then Inr False
      else if source_path a = Some [] then Inr False
      else Inr True)"

definition cvm_test :: "cvm_gate \<Rightarrow> artifact_manifest \<Rightarrow> bool res" where
  "cvm_test g a = Inr (tests a \<noteq> [] \<or> True)"

definition prove :: "cvm_gate \<Rightarrow> artifact_manifest \<Rightarrow> bool res" where
  "prove g a = Inr (0 < length (get_lean_proofs a) \<and> verify_invariants_covered a)"

definition review :: "cvm_gate \<Rightarrow> artifact_manifest \<Rightarrow> bool res" where
  "review g a =
     (if invariants a = [] then Inr False
      else if doc_url a = None \<and> source_path a = None then Inr False
      else Inr True)"

definition merge :: "cvm_gate \<Rightarrow> artifact_manifest \<Rightarrow> bool res" where
  "merge g a = Inr True"

definition promote :: "timestamp \<Rightarrow> cvm_gate \<Rightarrow> artifact_manifest \<Rightarrow> artifact_manifest res" where
  "promote now g a =
     (if tier_as_u8 (tier a) \<noteq> 2 then Inl (Err ''Only T2 artifacts can be promoted'')
      else if \<not> cvm_gate_passed a
      then Inl (Err ''Artifact must pass CVMGate before promotion'')
      else Inr (a\<lparr>tier := T1, art_updated_at := now\<rparr>))"

section \<open>The pipeline\<close>

text \<open>\<open>num_milliseconds() as u64\<close>: the cast of a negative number wraps.\<close>

definition ms_u64 :: "extern \<Rightarrow> timestamp \<Rightarrow> timestamp \<Rightarrow> u64" where
  "ms_u64 X a b = word_of_int (ms_between X a b)"

text \<open>
  The record of a step whose start was reading \<open>k\<close> of the clock: the duration takes reading
  \<open>k + 1\<close>, the time stamp reading \<open>k + 2\<close>.
\<close>

definition step_record ::
    "extern \<Rightarrow> (nat \<Rightarrow> timestamp) \<Rightarrow> nat \<Rightarrow> cvm_step \<Rightarrow> bool \<Rightarrow> string \<Rightarrow> step_result" where
  "step_record X clk k s ok msg =
     \<lparr>sr_step = step_as_u8 s, sr_passed = ok, sr_message = msg, sr_timestamp = clk (k + 2),
      sr_duration_ms = ms_u64 X (clk (k + 1)) (clk k)\<rparr>"

text \<open>\<open>result.finalize(ok, (Utc::now() - start) ...)\<close>, with readings \<open>k\<close> and \<open>k + 1\<close>.\<close>

definition finish :: "extern \<Rightarrow> (nat \<Rightarrow> timestamp) \<Rightarrow> nat \<Rightarrow> bool \<Rightarrow> cvm_result \<Rightarrow> cvm_result" where
  "finish X clk k ok r = cvm_finalize (clk (k + 1)) ok (ms_u64 X (clk k) (clk 0)) r"

definition cvm_process ::
    "extern \<Rightarrow> (nat \<Rightarrow> timestamp) \<Rightarrow> cvm_gate \<Rightarrow> artifact_manifest \<Rightarrow> cvm_result res" where
  "cvm_process X clk g a =
     (let r0 = cvm_result_new (clk 1) (artifact_id a) in
      res_bind (typecheck g a) (\<lambda>typecheck_ok.
      let r1 = cvm_add_step (step_record X clk 2 Typecheck typecheck_ok
                 (if typecheck_ok then ''Typecheck passed'' else ''Typecheck failed'')) r0 in
      if \<not> typecheck_ok then Inr (finish X clk 5 False r1) else
      res_bind (cvm_test g a) (\<lambda>test_ok.
      let r2 = cvm_add_step (step_record X clk 5 Test test_ok
                 (''Tests: '' @ show_nat (length (tests a)) @ '' tests executed'')) r1 in
      if \<not> test_ok then Inr (finish X clk 8 False r2) else
      res_bind (prove g a) (\<lambda>prove_ok.
      let r3 = cvm_add_step (step_record X clk 8 Prove prove_ok
                 (''Proofs: '' @ show_nat (length (proofs a)) @ '' proofs verified'')) r2 in
      if \<not> prove_ok then Inr (finish X clk 11 False r3) else
      res_bind (review g a) (\<lambda>review_ok.
      let r4 = cvm_add_step (step_record X clk 11 Review review_ok
                 (if review_ok then ''Design review passed'' else ''Design review failed'')) r3 in
      if \<not> review_ok then Inr (finish X clk 14 False r4) else
      res_bind (merge g a) (\<lambda>merge_ok.
      let r5 = cvm_add_step (step_record X clk 14 Merge merge_ok
                 ''Artifact merged into universe'') r4 in
      Inr (finish X clk 17 merge_ok r5)))))))"

section \<open>Specification: the first failing check stops the gate\<close>

text \<open>The steps a gate with these checks runs, each with its outcome.\<close>

fun run_checks :: "(cvm_step \<times> bool) list \<Rightarrow> (cvm_step \<times> bool) list" where
  "run_checks [] = []"
| "run_checks ((s, ok) # cs) = (s, ok) # (if ok then run_checks cs else [])"

lemma run_checks_prefix: "prefix (run_checks cs) cs"
  by (induction cs rule: run_checks.induct) auto

lemma run_checks_all: "list_all snd (run_checks cs) \<longleftrightarrow> list_all snd cs"
  by (induction cs rule: run_checks.induct) auto

lemma run_checks_complete: "list_all snd cs \<Longrightarrow> run_checks cs = cs"
  by (induction cs rule: run_checks.induct) auto

lemma run_checks_butlast: "list_all snd (butlast (run_checks cs))"
proof (induction cs rule: run_checks.induct)
  case (2 s ok cs)
  then show ?case by (cases "run_checks cs = []") auto
qed simp

text \<open>What the five checks of the code decide about a manifest.\<close>

definition well_formed :: "artifact_manifest \<Rightarrow> bool" where
  "well_formed a \<longleftrightarrow> artifact_id a \<noteq> [] \<and> art_name a \<noteq> [] \<and> source_path a \<noteq> Some []"

definition proof_linked :: "artifact_manifest \<Rightarrow> bool" where
  "proof_linked a \<longleftrightarrow>
     (\<exists>p \<in> set (proofs a). proof_language p = ''lean4'') \<and>
     (\<forall>i \<in> set (invariants a). proof_reference i \<noteq> None)"

definition reviewable :: "artifact_manifest \<Rightarrow> bool" where
  "reviewable a \<longleftrightarrow> invariants a \<noteq> [] \<and> (doc_url a \<noteq> None \<or> source_path a \<noteq> None)"

definition gate_checks :: "artifact_manifest \<Rightarrow> (cvm_step \<times> bool) list" where
  "gate_checks a =
     [(Typecheck, well_formed a), (Test, True), (Prove, proof_linked a), (Review, reviewable a),
      (Merge, True)]"

lemma typecheck_spec: "typecheck g a = Inr (well_formed a)"
  by (simp add: typecheck_def well_formed_def)

lemma cvm_test_spec: "cvm_test g a = Inr True"
  by (simp add: cvm_test_def)

lemma prove_spec: "prove g a = Inr (proof_linked a)"
  by (auto simp: prove_def proof_linked_def get_lean_proofs_Nil_iff verify_invariants_covered_def
      list_all_iff)

lemma review_spec: "review g a = Inr (reviewable a)"
  by (auto simp: review_def reviewable_def)

lemmas check_specs = typecheck_spec cvm_test_spec prove_spec review_spec merge_def

text \<open>The step records of a run, for every number of steps it makes.\<close>

definition run_records :: "extern \<Rightarrow> (nat \<Rightarrow> timestamp) \<Rightarrow> artifact_manifest \<Rightarrow> step_result list" where
  "run_records X clk a =
     [step_record X clk 2 Typecheck (well_formed a)
        (if well_formed a then ''Typecheck passed'' else ''Typecheck failed''),
      step_record X clk 5 Test True (''Tests: '' @ show_nat (length (tests a)) @ '' tests executed''),
      step_record X clk 8 Prove (proof_linked a)
        (''Proofs: '' @ show_nat (length (proofs a)) @ '' proofs verified''),
      step_record X clk 11 Review (reviewable a)
        (if reviewable a then ''Design review passed'' else ''Design review failed''),
      step_record X clk 14 Merge True ''Artifact merged into universe'']"

definition steps_run :: "artifact_manifest \<Rightarrow> nat" where
  "steps_run a = length (run_checks (gate_checks a))"

lemma steps_run_eq:
  "steps_run a = (if \<not> well_formed a then 1 else if \<not> proof_linked a then 3
                  else if \<not> reviewable a then 4 else 5)"
  by (simp add: steps_run_def gate_checks_def)

definition gate_passes :: "artifact_manifest \<Rightarrow> bool" where
  "gate_passes a \<longleftrightarrow> well_formed a \<and> proof_linked a \<and> reviewable a"

lemmas cvm_result_defs = finish_def cvm_finalize_def cvm_add_step_def cvm_result_new_def

lemma cvm_process_eq:
  "cvm_process X clk g a =
     Inr \<lparr>res_artifact_id = artifact_id a,
          res_steps = take (steps_run a) (run_records X clk a),
          res_passed = gate_passes a,
          res_completed_at = clk (3 * steps_run a + 3),
          res_total_duration_ms = ms_u64 X (clk (3 * steps_run a + 2)) (clk 0)\<rparr>"
proof (cases "well_formed a \<and> proof_linked a \<and> reviewable a")
  case True
  then show ?thesis
    by (simp add: cvm_process_def check_specs cvm_result_defs steps_run_eq run_records_def gate_passes_def)
next
  case False
  then consider "\<not> well_formed a" | "well_formed a" "\<not> proof_linked a"
    | "well_formed a" "proof_linked a" "\<not> reviewable a" by blast
  then show ?thesis
    by cases (simp_all add: cvm_process_def check_specs cvm_result_defs steps_run_eq run_records_def
        gate_passes_def)
qed

lemma map_run_records:
  "map (\<lambda>s. (sr_step s, sr_passed s)) (run_records X clk a) =
     map (\<lambda>(s, ok). (step_as_u8 s, ok)) (gate_checks a)"
  by (simp add: run_records_def step_record_def gate_checks_def)

lemma take_steps_run: "take (steps_run a) (gate_checks a) = run_checks (gate_checks a)"
  by (metis append_eq_conv_conj prefixE run_checks_prefix steps_run_def)

lemma length_run_records: "length (run_records X clk a) = 5" "steps_run a \<le> 5"
  by (simp_all add: run_records_def steps_run_eq)

lemma run_records_duration:
  "i < 5 \<Longrightarrow> sr_duration_ms (run_records X clk a ! i) = ms_u64 X (clk (3 * i + 3)) (clk (3 * i + 2))"
  by (auto simp: run_records_def step_record_def numeral_eq_Suc less_Suc_eq)

section \<open>Properties\<close>

text \<open>
  C6: the gate implements its specification. It always returns a result; the steps of the result are
  exactly the prefix of the five checks up to the first that fails, each with its number and
  outcome; so every step but the last one passed, and the verdict is that of the last step.
\<close>

theorem cvm_process_refines_spec:
  "\<exists>r. cvm_process X clk g a = Inr r \<and> res_artifact_id r = artifact_id a \<and>
     map (\<lambda>s. (sr_step s, sr_passed s)) (res_steps r) =
       map (\<lambda>(s, ok). (step_as_u8 s, ok)) (run_checks (gate_checks a)) \<and>
     list_all sr_passed (butlast (res_steps r)) \<and>
     res_steps r \<noteq> [] \<and> res_passed r = sr_passed (last (res_steps r))"
proof -
  let ?ss = "take (steps_run a) (run_records X clk a)"
  let ?code = "map (\<lambda>(s, ok). (step_as_u8 s, ok))"
  have steps: "map (\<lambda>s. (sr_step s, sr_passed s)) ?ss = ?code (run_checks (gate_checks a))"
    unfolding take_map [symmetric] map_run_records by (simp add: take_map take_steps_run)
  have passed: "map sr_passed ?ss = map snd (run_checks (gate_checks a))"
    using arg_cong [OF steps, of "map snd"] by (simp add: comp_def case_prod_unfold)
  have "list_all (\<lambda>b. b) (butlast (map snd (run_checks (gate_checks a))))"
    using run_checks_butlast by (simp add: list.pred_map comp_def flip: map_butlast)
  then have "list_all sr_passed (butlast ?ss)"
    unfolding passed [symmetric] by (simp add: list.pred_map comp_def flip: map_butlast)
  moreover have ne: "?ss \<noteq> []" by (simp add: run_records_def steps_run_eq)
  moreover have "sr_passed (last ?ss) = gate_passes a"
    by (simp add: run_records_def steps_run_eq gate_passes_def step_record_def)
  ultimately show ?thesis using steps by (simp add: cvm_process_eq)
qed

text \<open>
  C28: when the gate passes a manifest. The verdict depends on the manifest alone: not on the clock,
  not on the strictness of the gate, and not on the recorded tests.
\<close>

theorem cvm_verdict:
  "map_sum id res_passed (cvm_process X clk g a) = Inr
     (artifact_id a \<noteq> [] \<and> art_name a \<noteq> [] \<and> source_path a \<noteq> Some [] \<and>
      (\<exists>p \<in> set (proofs a). proof_language p = ''lean4'') \<and>
      list_all (\<lambda>i. proof_reference i \<noteq> None) (invariants a) \<and> invariants a \<noteq> [] \<and>
      \<not> (doc_url a = None \<and> source_path a = None)) \<and>
   map_sum id res_passed (cvm_process X' clk' (cvm_gate_strict g) (a\<lparr>tests := ts\<rparr>)) =
     map_sum id res_passed (cvm_process X clk g a)"
  by (auto simp: cvm_process_eq gate_passes_def well_formed_def proof_linked_def reviewable_def
      list_all_iff)

definition dangling_artifact :: artifact_manifest where
  "dangling_artifact =
     add_proof \<lparr>proof_id = ''other'', proof_language = ''lean4'', proof_hash = [], proof_created_at = 0\<rparr>
       (add_invariant (invariant_with_proof ''missing'' (invariant_new ''inv'' ''d''))
         (with_doc_url ''u'' (artifact_new 0 0 ''a'' ''n'' ''1'' ''rust'' 2)))"

text \<open>
  A reference to a proof is not looked up. A manifest passes the gate although its invariant
  refers to a proof that is not among its proofs.
\<close>

lemma gate_accepts_dangling_proof:
  "\<exists>a r. cvm_process X clk g a = Inr r \<and> res_passed r \<and>
     (\<exists>i \<in> set (invariants a). \<exists>p. proof_reference i = Some p \<and> p \<notin> proof_id ` set (proofs a))"
  by (rule exI [of _ dangling_artifact])
    (simp add: cvm_process_eq dangling_artifact_def manifest_builder_defs gate_passes_def
      well_formed_def proof_linked_def reviewable_def)

lemma ms_u64_mono:
  assumes "ms_truncates X" and "b \<le> a" and "(a - b) div 1000000 < 2 ^ 64"
  shows "int (unat (ms_u64 X a b)) = (a - b) div 1000000"
proof -
  have "0 \<le> (a - b) div 1000000" using assms(2) by (simp add: pos_imp_zdiv_nonneg_iff)
  with assms(3) have "uint (word_of_int ((a - b) div 1000000) :: u64) = (a - b) div 1000000"
    by (simp add: uint_word_of_int)
  with assms(1,2) show ?thesis by (simp add: ms_u64_def ms_truncates_def)
qed

lemma steps_sum_bound:
  assumes "mono clk"
  shows "(\<Sum>i\<leftarrow>[0..<n]. clk (3 * i + 3) - clk (3 * i + 2)) \<le> clk (3 * n + 2) - (clk 0 :: int)"
proof (induction n)
  case 0
  show ?case using monoD [OF assms, of 0 2] by (simp add: numeral_2_eq_2)
next
  case (Suc n)
  then show ?case using monoD [OF assms, of "3 * n + 3" "3 * Suc n + 2"] by simp
qed

text \<open>With such a clock every duration of a run is the exact difference of its two readings.\<close>

lemma run_durations_exact:
  assumes X: "ms_truncates X" and mono: "mono (clk :: nat \<Rightarrow> int)"
    and short: "(clk 17 - clk 0) div 1000000 < 2 ^ 64" and "i \<le> j" and "j \<le> 17"
  shows "int (unat (ms_u64 X (clk j) (clk i))) = (clk j - clk i) div 1000000"
proof (rule ms_u64_mono [OF X])
  show "clk i \<le> clk j" using monoD [OF mono \<open>i \<le> j\<close>] .
  have "clk j - clk i \<le> clk 17 - clk 0" using monoD [OF mono, of j 17] monoD [OF mono, of 0 i] assms(5) by simp
  with short show "(clk j - clk i) div 1000000 < 2 ^ 64"
    using zdiv_mono1 [of "clk j - clk i" "clk 17 - clk 0" 1000000] by fastforce
qed

text \<open>
  C37: with a clock that does not run backwards and a run shorter than 2 ^ 64 milliseconds, no duration
  wraps: the duration of every step is the time between its two readings of the clock, and the total that
  from the first reading to the last but one, each in whole milliseconds; so the durations of the steps
  add up to at most the total.
\<close>

theorem cvm_durations_within_total:
  assumes X: "ms_truncates X" and mono: "mono clk"
    and short: "(clk 17 - clk 0) div 1000000 < 2 ^ 64"
  shows "\<exists>r. cvm_process X clk g a = Inr r \<and>
    (\<forall>i < length (res_steps r). int (unat (sr_duration_ms (res_steps r ! i))) =
       (clk (3 * i + 3) - clk (3 * i + 2)) div 1000000) \<and>
    int (unat (res_total_duration_ms r)) = (clk (3 * length (res_steps r) + 2) - clk 0) div 1000000 \<and>
    (\<Sum>s\<leftarrow>res_steps r. unat (sr_duration_ms s)) \<le> unat (res_total_duration_ms r)"
proof -
  let ?n = "steps_run a" and ?M = "1000000 :: int"
  let ?ss = "take ?n (run_records X clk a)" and ?d = "\<lambda>i. clk (3 * i + 3) - clk (3 * i + 2)"
  note exact = run_durations_exact [OF X mono short]
  have n: "?n \<le> 5" "length ?ss = ?n" by (simp_all add: length_run_records)
  have steps: "int (unat (sr_duration_ms (?ss ! i))) = ?d i div ?M" if "i < ?n" for i
    using that n(1) exact [of "3 * i + 2" "3 * i + 3"] run_records_duration [of i X clk a] by simp
  have total: "int (unat (ms_u64 X (clk (3 * ?n + 2)) (clk 0))) = (clk (3 * ?n + 2) - clk 0) div ?M"
    using n(1) by (intro exact) simp_all
  have "map (\<lambda>s. int (unat (sr_duration_ms s))) ?ss = map (\<lambda>i. ?d i div ?M) [0..<?n]"
    using n(2) steps by (intro nth_equalityI) simp_all
  then have "(\<Sum>s\<leftarrow>?ss. int (unat (sr_duration_ms s))) = (\<Sum>x\<leftarrow>map ?d [0..<?n]. x div ?M)"
    by (simp add: comp_def)
  also have "\<dots> \<le> (\<Sum>i\<leftarrow>[0..<?n]. ?d i) div ?M" by (rule sum_list_div_le) simp
  also have "\<dots> \<le> (clk (3 * ?n + 2) - clk 0) div ?M"
    by (intro zdiv_mono1 steps_sum_bound mono) simp
  finally have "int (\<Sum>s\<leftarrow>?ss. unat (sr_duration_ms s)) \<le> int (unat (ms_u64 X (clk (3 * ?n + 2)) (clk 0)))"
    by (simp only: total sum_list_of_nat [symmetric] map_map comp_def)
  then have "(\<Sum>s\<leftarrow>?ss. unat (sr_duration_ms s)) \<le> unat (ms_u64 X (clk (3 * ?n + 2)) (clk 0))"
    by (simp only: zle_int)
  moreover have "\<forall>i < length ?ss. int (unat (sr_duration_ms (?ss ! i))) = ?d i div ?M" using steps n(2) by simp
  ultimately show ?thesis
    using total unfolding cvm_process_eq sum.inject(2) ex_simps simp_thms
    by (simp only: cvm_result.simps n(2))
qed

theorem cvm_durations_within_total_witness:
  "\<exists>r. cvm_process demo_extern (\<lambda>i. int i * 5000000) cvm_gate_new (demo_artifact ''a'' 2) = Inr r \<and>
    int (unat (sr_duration_ms (res_steps r ! 0))) = 5"
proof -
  have short: "(int 17 * 5000000 - int 0 * 5000000) div 1000000 < 2 ^ 64" by simp
  obtain r where r: "cvm_process demo_extern (\<lambda>i. int i * 5000000) cvm_gate_new (demo_artifact ''a'' 2) = Inr r"
    and d: "\<forall>i < length (res_steps r). int (unat (sr_duration_ms (res_steps r ! i))) =
       (int (3 * i + 3) * 5000000 - int (3 * i + 2) * 5000000) div 1000000"
    using cvm_durations_within_total [OF ms_truncates_demo _ short, of cvm_gate_new "demo_artifact ''a'' 2"]
    by (auto simp: mono_def)
  have "0 < length (take (steps_run b) (run_records X clk b))" for X clk b
    by (simp only: length_take length_run_records(1)) (simp add: steps_run_eq)
  then have "0 < length (res_steps r)" using r unfolding cvm_process_eq sum.inject by (metis cvm_result.select_convs(2))
  with d have "int (unat (sr_duration_ms (res_steps r ! 0))) = 5" by fastforce
  with r show ?thesis by blast
qed

text \<open>
  With a clock set back during the run, the duration wraps: for every artifact there is a clock
  for which the first step is recorded to last longer than 2 ^ 63 milliseconds.
\<close>

lemma cvm_duration_wraps:
  assumes "ms_truncates X"
  shows "\<exists>clk r. cvm_process X clk g a = Inr r \<and> 2 ^ 63 < unat (sr_duration_ms (hd (res_steps r)))"
proof -
  let ?clk = "\<lambda>i :: nat. if i = 3 then - 1000000 else 0 :: int"
  have "sr_duration_ms (hd (take (steps_run a) (run_records X ?clk a))) = ms_u64 X (?clk 3) (?clk 2)"
    by (simp add: steps_run_eq run_records_def step_record_def)
  moreover have "ms_u64 X (?clk 3) (?clk 2) = - 1"
    using assms by (simp add: ms_u64_def ms_truncates_def)
  moreover have "2 ^ 63 < unat (- 1 :: u64)" by (simp add: unsigned_minus_1_eq_mask mask_eq_exp_minus_1)
  ultimately show ?thesis by (intro exI [of _ ?clk]) (simp add: cvm_process_eq)
qed

lemma cvm_duration_wraps_witness:
  "\<exists>clk r. cvm_process demo_extern clk cvm_gate_new (demo_artifact ''a'' 2) = Inr r \<and>
     2 ^ 63 < unat (sr_duration_ms (hd (res_steps r)))"
  by (rule cvm_duration_wraps) (rule ms_truncates_demo)

section \<open>The life of an artifact\<close>

text \<open>The ways the API changes a manifest, one rule for each.\<close>

inductive artifact_step :: "artifact_manifest \<Rightarrow> artifact_manifest \<Rightarrow> bool" where
  step_invariant: "artifact_step a (add_invariant i a)"
| step_proof: "artifact_step a (add_proof p a)"
| step_test: "artifact_step a (add_test t a)"
| step_source: "artifact_step a (with_source_path s a)"
| step_doc: "artifact_step a (with_doc_url u a)"
| step_hash: "artifact_step a (compute_hash X now content a)"
| step_mark: "artifact_step a (mark_cvm_passed now a)"
| step_promote: "promote now g a = Inr b \<Longrightarrow> artifact_step a b"

inductive artifact_history :: "artifact_manifest \<Rightarrow> artifact_manifest \<Rightarrow> bool" where
  history_start: "artifact_history (artifact_new n1 n2 i nm v l t) (artifact_new n1 n2 i nm v l t)"
| history_step: "artifact_history a b \<Longrightarrow> artifact_step b c \<Longrightarrow> artifact_history a c"

inductive_simps artifact_step_simps: "artifact_step a b"

lemma promote_Inr_iff:
  "promote now g a = Inr b \<longleftrightarrow>
     tier a = T2 \<and> cvm_gate_passed a \<and> b = a\<lparr>tier := T1, art_updated_at := now\<rparr>"
  by (cases "tier a") (auto simp: promote_def)

lemma artifact_step_keeps:
  assumes "artifact_step b c"
  shows "artifact_id c = artifact_id b" and "art_created_at c = art_created_at b"
    and "cvm_gate_passed b \<Longrightarrow> cvm_gate_passed c"
    and "tier c = tier b \<or> tier b = T2 \<and> cvm_gate_passed b \<and> tier c = T1"
  using assms by (auto simp: artifact_step_simps manifest_builder_defs promote_Inr_iff)

text \<open>
  C20: whatever is done with an artifact, it keeps its identifier and its tier, with one exception: an
  artifact created in T2 can be in T1, and then its gate flag is set. No artifact enters T0 or leaves T0,
  T1 or T3.
\<close>

theorem artifact_tier_safety:
  assumes "artifact_history a b"
  shows "artifact_id b = artifact_id a \<and>
    (tier b = tier a \<or> tier a = T2 \<and> tier b = T1 \<and> cvm_gate_passed b)"
  using assms
proof (induction rule: artifact_history.induct)
  case (history_step a b c)
  then show ?case using artifact_step_keeps [OF history_step.hyps(2)] by auto
qed simp

theorem artifact_tier_safety_witness:
  "artifact_id (demo_artifact ''a'' 2) = ''a'' \<and>
   (\<exists>b. artifact_history (demo_artifact ''a'' 2) b \<and> tier b = T1 \<and> cvm_gate_passed b)"
proof -
  let ?a = "demo_artifact ''a'' 2" and ?m = "mark_cvm_passed 1 (demo_artifact ''a'' 2)"
  let ?b = "?m\<lparr>tier := T1, art_updated_at := 2\<rparr>"
  have "promote 2 cvm_gate_new ?m = Inr ?b"
    by (simp add: promote_Inr_iff manifest_builder_defs demo_artifact_def tier_from_u8_def)
  then have h: "artifact_history ?a ?b"
    unfolding demo_artifact_def by (intro history_step [OF history_step [OF history_start step_mark] step_promote])
  from artifact_tier_safety [OF h]
  have "cvm_gate_passed ?b" by (simp add: demo_artifact_def artifact_new_def tier_from_u8_def mark_cvm_passed_def)
  with h show ?thesis by (auto simp: demo_artifact_def artifact_new_def)
qed

end
