(* ===== verification/Universe_Demo.thy ===== *)
theory Universe_Demo
  imports CVM_Gate "HOL-Library.Multiset"
begin

text \<open>
  \<open>seb/universe/examples/universe_demo.rs\<close>: the example program of the crate, which loads three
  artifacts, queries them, sends a fourth through the gate, adds and promotes it. Its output is a
  list of the arguments of \<open>println!\<close>; a panic loses it. \<open>clk\<close> gives the readings of
  the clock in their order: one for each \<open>Utc::now()\<close> that runs, with 19 for a run of the gate that passes. \<open>ord\<close> is the iteration order of the
  artifacts of a universe, \<open>lower\<close> is \<open>str::to_lowercase\<close>.
\<close>

section \<open>The program\<close>

definition single_quote :: string where
  "single_quote = [CHR 0x27]"

definition demo_blake3 :: "(nat \<Rightarrow> timestamp) \<Rightarrow> artifact_manifest" where
  "demo_blake3 clk =
     add_invariant
       (invariant_with_proof ''blake3_proof'' (invariant_new ''collision_resistant'' ''Must resist collisions''))
       (with_source_path ''seb/kernel/blake3.rs''
         (artifact_new (clk 0) (clk 1) ''blake3_core'' ''Blake3 Hash'' ''1.5.0'' ''rust'' 0))"

definition demo_mmap :: "(nat \<Rightarrow> timestamp) \<Rightarrow> artifact_manifest" where
  "demo_mmap clk =
     add_invariant
       (invariant_with_proof ''mmap_proof'' (invariant_new ''memory_safety'' ''Must prevent use-after-free''))
       (artifact_new (clk 2) (clk 3) ''mmap_arena'' ''Memory-Mapped Arena'' ''1.0.0'' ''rust'' 0)"

definition demo_append_log :: "(nat \<Rightarrow> timestamp) \<Rightarrow> artifact_manifest" where
  "demo_append_log clk =
     add_invariant
       (invariant_with_proof ''worm_immutability'' (invariant_new ''immutability'' ''Cannot modify entries''))
       (artifact_new (clk 4) (clk 5) ''append_only_log'' ''Append-Only Log'' ''1.0.0'' ''rust'' 1)"

definition demo_proposal :: "(nat \<Rightarrow> timestamp) \<Rightarrow> artifact_manifest" where
  "demo_proposal clk =
     add_test \<lparr>test_id = ''rotation_test'', test_framework = ''cargo test'', test_pass_count = 42,
               test_last_run = clk 9\<rparr>
    (add_proof \<lparr>proof_id = ''rotation_proof'', proof_language = ''lean4'', proof_hash = ''abc123def456'',
                proof_created_at = clk 8\<rparr>
    (add_invariant
       (invariant_with_proof ''rotation_proof''
         (invariant_new ''rotation_atomicity'' ''Rotation must be atomic''))
    (with_doc_url ''https://example.com/docs''
    (with_source_path ''seb/kernel/segment_rotation.rs''
    (artifact_new (clk 6) (clk 7) ''segment_rotation'' ''Log Segment Rotation'' ''1.0.0'' ''rust'' 2)))))"

text \<open>\<open>println!("...{}", stats.get(key).unwrap())\<close>, with what follows the value.\<close>

definition stat_line ::
    "extern \<Rightarrow> (string, json) fmap \<Rightarrow> string \<Rightarrow> string \<Rightarrow> string \<Rightarrow> string res" where
  "stat_line X stats before key after =
     (case fmlookup stats key of None \<Rightarrow> Inl Panic | Some v \<Rightarrow> Inr (before @ json_text X v @ after))"

definition demo_queries ::
    "extern \<Rightarrow> (string \<Rightarrow> string) \<Rightarrow> (universe \<Rightarrow> string list) \<Rightarrow> universe \<Rightarrow> string list res" where
  "demo_queries X lower ord u =
     (let stats = statistics (ord u) u in
      res_bind (res_map (\<lambda>(before, key, after). stat_line X stats before key after)
        [(''   Total artifacts: '', ''total_artifacts'', []),
         (''   T0 count: '', ''t0_count'', []),
         (''   T1 count: '', ''t1_count'', []),
         (''   Languages: '', ''languages'', [newline])]) (\<lambda>stat_lines.
      Inr ([''Loaded '' @ show_nat (length (get_all (ord u) u)) @ '' artifacts'' @ [newline],
            ''2. Querying by tier:'',
            ''   T0 artifacts: '' @ show_nat (length (get_t0 u)),
            ''   T1 artifacts: '' @ show_nat (length (get_t1 u)) @ [newline],
            ''3. Querying by invariant:'',
            ''   Artifacts with '' @ single_quote @ ''collision_resistant'' @ single_quote @ '': ''
              @ show_nat (length (query_by_invariant u ''collision_resistant'')) @ [newline],
            ''4. Searching by name:'',
            ''   Found '' @ show_nat (length (search_by_name lower (ord u) u ''hash''))
              @ '' artifacts matching '' @ single_quote @ ''hash'' @ single_quote @ [newline],
            ''5. Querying by language:'',
            ''   Rust artifacts: '' @ show_nat (length (query_by_language u ''rust'')) @ [newline],
            ''6. Repository statistics:''] @ stat_lines)))"

definition demo_step_line :: "step_result \<Rightarrow> string" where
  "demo_step_line s =
     ''     - Step '' @ show_nat (unat (sr_step s)) @ '': '' @ (if sr_passed s then ''PASS'' else ''FAIL'')
     @ '' ('' @ show_nat (unat (sr_duration_ms s)) @ ''ms)''"

text \<open>The promotion of the first T2 artifact, with reading 30 of the clock.\<close>

definition demo_promotion :: "(nat \<Rightarrow> timestamp) \<Rightarrow> cvm_gate \<Rightarrow> artifact_manifest list \<Rightarrow> string list res" where
  "demo_promotion clk g t2 =
     (case t2 of
        [] \<Rightarrow> Inr []
      | a # _ \<Rightarrow>
          (case promote (clk 30) g a of
             Inr b \<Rightarrow> Inr [''   Promoted '' @ single_quote @ artifact_id b @ single_quote @ '' from ''
                           @ tier_as_str (tier a) @ '' to '' @ tier_as_str (tier b)]
           | Inl (Err e) \<Rightarrow> Inr [''   Promotion failed: '' @ e]
           | Inl Panic \<Rightarrow> Inl Panic))"

definition check_mark :: string where
  "check_mark = [CHR 0xE2, CHR 0x9C, CHR 0x93]"

text \<open>The gate runs with the readings 10 to 28, the mark takes reading 29.\<close>

definition demo_gate ::
    "extern \<Rightarrow> (nat \<Rightarrow> timestamp) \<Rightarrow> artifact_manifest \<Rightarrow> universe \<Rightarrow> (string list \<times> universe) res" where
  "demo_gate X clk a u =
     (let g = cvm_gate_new in
      case cvm_process X (\<lambda>k. clk (10 + k)) g a of
        Inl Panic \<Rightarrow> Inl Panic
      | Inl (Err e) \<Rightarrow> Inr ([''   CVMGate error: '' @ e], u)
      | Inr r \<Rightarrow>
          let report = [''   CVMGate result: '' @ cvm_summary r, ''   Steps completed:'']
                @ map demo_step_line (res_steps r)
          in if \<not> res_passed r then Inr (report, u)
             else let u' = add_artifact (mark_cvm_passed (clk 29) a) u;
                      t2 = get_t2 u'
                  in res_bind (demo_promotion clk g t2) (\<lambda>promoted.
                     Inr (report @ [''   All steps passed! '' @ check_mark @ [newline],
                                    ''8. Promoting artifact T2 -> T1:'',
                                    ''   T2 artifacts: '' @ show_nat (length t2)] @ promoted, u')))"

definition demo_final :: "extern \<Rightarrow> (universe \<Rightarrow> string list) \<Rightarrow> universe \<Rightarrow> string list res" where
  "demo_final X ord u =
     (let stats = statistics (ord u) u in
      res_bind (res_map (\<lambda>(before, key). stat_line X stats before key [])
        [(''   Total artifacts: '', ''total_artifacts''),
         (''   T0 count: '', ''t0_count''),
         (''   T1 count: '', ''t1_count''),
         (''   T2 count: '', ''t2_count''),
         (''   CVMGate passed: '', ''cvm_gate_passed'')]) (\<lambda>stat_lines.
      Inr ([[newline] @ ''9. Final repository statistics:''] @ stat_lines)))"

definition universe_demo ::
    "extern \<Rightarrow> (string \<Rightarrow> string) \<Rightarrow> (universe \<Rightarrow> string list) \<Rightarrow> (nat \<Rightarrow> timestamp) \<Rightarrow> string list res" where
  "universe_demo X lower ord clk =
     (let u = add_artifact (demo_append_log clk)
                (add_artifact (demo_mmap clk) (add_artifact (demo_blake3 clk) universe_new)) in
      res_bind (demo_queries X lower ord u) (\<lambda>queries.
      res_bind (demo_gate X clk (demo_proposal clk) u) (\<lambda>(gate, u').
      res_bind (demo_final X ord u') (\<lambda>final.
        Inr ([''=== SEB L7 Universe Substrate Demo ==='' @ [newline], ''1. Loading repository...'']
             @ queries @ [''7. Processing new artifact through CVMGate:''] @ gate @ final
             @ [[newline] @ ''=== Demo Complete ===''])))))"

section \<open>Facts about iteration\<close>

text \<open>How many values of a map have a property does not depend on the order of iteration.\<close>

lemma length_filter_hm_values:
  assumes "iter_order ord m" and "iter_order ord' m"
  shows "length (filter P (hm_values ord m)) = length (filter P (hm_values ord' m))"
proof -
  have "mset ord = mset ord'"
    using assms by (simp add: iter_order_def set_eq_iff_mset_eq_distinct [symmetric])
  then have "mset (filter P (hm_values ord m)) = mset (filter P (hm_values ord' m))"
    using assms by (simp add: iter_order_def hm_values_eq_map)
  then show ?thesis by (rule mset_eq_length)
qed

abbreviation demo_universe3 :: "(nat \<Rightarrow> timestamp) \<Rightarrow> universe" where
  "demo_universe3 clk \<equiv>
     add_artifact (demo_append_log clk)
       (add_artifact (demo_mmap clk) (add_artifact (demo_blake3 clk) universe_new))"

abbreviation demo_universe4 :: "(nat \<Rightarrow> timestamp) \<Rightarrow> universe" where
  "demo_universe4 clk \<equiv> add_artifact (mark_cvm_passed (clk 29) (demo_proposal clk)) (demo_universe3 clk)"

lemmas demo_artifact_defs =
  demo_blake3_def demo_mmap_def demo_append_log_def demo_proposal_def manifest_builder_defs
  lang_from_str_def tier_from_u8_def

lemma demo_orders:
  "iter_order [''blake3_core'', ''mmap_arena'', ''append_only_log''] (artifacts (demo_universe3 clk))"
  "iter_order [''blake3_core'', ''mmap_arena'', ''append_only_log'', ''segment_rotation'']
     (artifacts (demo_universe4 clk))"
  by (auto simp: iter_order_def add_artifact_def universe_new_def demo_artifact_defs)

lemma demo_values:
  "hm_values [''blake3_core'', ''mmap_arena'', ''append_only_log''] (artifacts (demo_universe3 clk)) =
     [demo_blake3 clk, demo_mmap clk, demo_append_log clk]"
  "hm_values [''blake3_core'', ''mmap_arena'', ''append_only_log'', ''segment_rotation'']
     (artifacts (demo_universe4 clk)) =
     [demo_blake3 clk, demo_mmap clk, demo_append_log clk, mark_cvm_passed (clk 29) (demo_proposal clk)]"
  by (simp_all add: hm_values_def map_filter_simps add_artifact_def universe_new_def demo_artifact_defs)

lemma demo_sizes:
  "hm_len (artifacts (demo_universe3 clk)) = 3" "hm_len (artifacts (demo_universe4 clk)) = 4"
  "hm_len (language_index (demo_universe3 clk)) = 1"
  by (simp_all add: add_artifact_def universe_new_def demo_artifact_defs hm_len_upd mm_push_def)

lemma demo_tiers:
  "query_by_tier (demo_universe3 clk) t =
     (case t of T0 \<Rightarrow> [demo_blake3 clk, demo_mmap clk] | T1 \<Rightarrow> [demo_append_log clk] | _ \<Rightarrow> [])"
  "query_by_tier (demo_universe4 clk) t =
     (case t of T0 \<Rightarrow> [demo_blake3 clk, demo_mmap clk] | T1 \<Rightarrow> [demo_append_log clk]
      | T2 \<Rightarrow> [mark_cvm_passed (clk 29) (demo_proposal clk)] | T3 \<Rightarrow> [])"
  using query_by_tier_fold [of "[demo_blake3 clk, demo_mmap clk, demo_append_log clk]" t]
    query_by_tier_fold [of "[demo_blake3 clk, demo_mmap clk, demo_append_log clk,
      mark_cvm_passed (clk 29) (demo_proposal clk)]" t]
  by (cases t; simp add: demo_artifact_defs latest_def)+

lemma demo_others:
  "length (query_by_language (demo_universe3 clk) ''rust'') = 3"
  "length (query_by_invariant (demo_universe3 clk) ''collision_resistant'') = 1"
  using query_by_language_fold [of "[demo_blake3 clk, demo_mmap clk, demo_append_log clk]" "''rust''"]
    query_by_invariant_fold [of "[demo_blake3 clk, demo_mmap clk, demo_append_log clk]" "''collision_resistant''"]
  by (simp_all add: demo_artifact_defs)

lemma demo_search:
  assumes "lowers_ascii lower" and "iter_order ord (artifacts (demo_universe3 clk))"
  shows "length (search_by_name lower ord (demo_universe3 clk) ''hash'') = 1"
proof -
  have "lower ''hash'' = ''hash''" "lower ''Blake3 Hash'' = ''blake3 hash''"
    "lower ''Memory-Mapped Arena'' = ''memory-mapped arena''" "lower ''Append-Only Log'' = ''append-only log''"
    using assms(1) by (simp_all add: lowers_ascii_def ascii_lower_def char_of_eq_iff)
  then show ?thesis
    unfolding search_by_name_def length_filter_hm_values [OF assms(2) demo_orders(1)] demo_values
    by (simp add: demo_artifact_defs starts_with_def)
qed

section \<open>The transcript\<close>

definition demo_ms :: "extern \<Rightarrow> (nat \<Rightarrow> timestamp) \<Rightarrow> nat \<Rightarrow> string" where
  "demo_ms X clk k = show_nat (unat (ms_u64 X (clk (k + 1)) (clk k)))"

definition demo_transcript :: "extern \<Rightarrow> (nat \<Rightarrow> timestamp) \<Rightarrow> string list" where
  "demo_transcript X clk =
     [''=== SEB L7 Universe Substrate Demo ==='' @ [newline],
      ''1. Loading repository...'',
      ''Loaded 3 artifacts'' @ [newline],
      ''2. Querying by tier:'',
      ''   T0 artifacts: 2'',
      ''   T1 artifacts: 1'' @ [newline],
      ''3. Querying by invariant:'',
      ''   Artifacts with '' @ single_quote @ ''collision_resistant'' @ single_quote @ '': 1'' @ [newline],
      ''4. Searching by name:'',
      ''   Found 1 artifacts matching '' @ single_quote @ ''hash'' @ single_quote @ [newline],
      ''5. Querying by language:'',
      ''   Rust artifacts: 3'' @ [newline],
      ''6. Repository statistics:'',
      ''   Total artifacts: '' @ json_text X (JInt 3),
      ''   T0 count: '' @ json_text X (JInt 2),
      ''   T1 count: '' @ json_text X (JInt 1),
      ''   Languages: '' @ json_text X (JInt 1) @ [newline],
      ''7. Processing new artifact through CVMGate:'',
      ''   CVMGate result: CVMGate: 5/5 steps passed, ''
        @ show_nat (unat (ms_u64 X (clk 27) (clk 10) div 1000)) @ '' seconds'',
      ''   Steps completed:'',
      ''     - Step 1: PASS ('' @ demo_ms X clk 12 @ ''ms)'',
      ''     - Step 2: PASS ('' @ demo_ms X clk 15 @ ''ms)'',
      ''     - Step 3: PASS ('' @ demo_ms X clk 18 @ ''ms)'',
      ''     - Step 4: PASS ('' @ demo_ms X clk 21 @ ''ms)'',
      ''     - Step 5: PASS ('' @ demo_ms X clk 24 @ ''ms)'',
      ''   All steps passed! '' @ check_mark @ [newline],
      ''8. Promoting artifact T2 -> T1:'',
      ''   T2 artifacts: 1'',
      ''   Promoted '' @ single_quote @ ''segment_rotation'' @ single_quote @ '' from T2 to T1'',
      [newline] @ ''9. Final repository statistics:'',
      ''   Total artifacts: '' @ json_text X (JInt 4),
      ''   T0 count: '' @ json_text X (JInt 2),
      ''   T1 count: '' @ json_text X (JInt 1),
      ''   T2 count: '' @ json_text X (JInt 1),
      ''   CVMGate passed: '' @ json_text X (JInt 1),
      [newline] @ ''=== Demo Complete ==='']"

lemma demo_proposal_passes:
  "well_formed (demo_proposal clk)" "proof_linked (demo_proposal clk)" "reviewable (demo_proposal clk)"
  by (simp_all add: well_formed_def proof_linked_def reviewable_def demo_artifact_defs)

lemma length_get_all: "iter_order ord (artifacts u) \<Longrightarrow> length (get_all ord u) = hm_len (artifacts u)"
  by (simp add: get_all_def length_hm_values)

lemma demo_number_texts:
  "show_nat (Suc 0) = ''1''" "show_nat 1 = ''1''" "show_nat 2 = ''2''" "show_nat 3 = ''3''"
  "show_nat 4 = ''4''" "show_nat 5 = ''5''" "show_nat (Suc (Suc (Suc (Suc (Suc 0))))) = ''5''"
  by (simp_all add: show_nat.simps char_of_eq_iff)

lemma mark_cvm_passed_fields [simp]:
  "artifact_id (mark_cvm_passed now a) = artifact_id a" "tier (mark_cvm_passed now a) = tier a"
  by (simp_all add: mark_cvm_passed_def)


lemma demo_queries_eq:
  assumes "lowers_ascii lower" and "iter_order (ord (demo_universe3 clk)) (artifacts (demo_universe3 clk))"
  shows "demo_queries X lower ord (demo_universe3 clk) = Inr (take 15 (drop 2 (demo_transcript X clk)))"
proof -
  let ?o = "ord (demo_universe3 clk)"
  have f: "length (get_all ?o (demo_universe3 clk)) = 3"
    "length (search_by_name lower ?o (demo_universe3 clk) ''hash'') = 1"
    by (simp_all only: length_get_all [OF assms(2)] demo_sizes demo_search [OF assms])
  have g: "length (get_t0 (demo_universe3 clk)) = 2" "length (get_t1 (demo_universe3 clk)) = 1"
    by (simp_all add: get_t0_def get_t1_def demo_tiers)
  have s: "fmlookup (statistics ?o (demo_universe3 clk)) ''total_artifacts'' = Some (JInt 3)"
    "fmlookup (statistics ?o (demo_universe3 clk)) ''t0_count'' = Some (JInt 2)"
    "fmlookup (statistics ?o (demo_universe3 clk)) ''t1_count'' = Some (JInt 1)"
    "fmlookup (statistics ?o (demo_universe3 clk)) ''languages'' = Some (JInt 1)"
    by (simp_all add: statistics_def g demo_sizes del: fmlookup_push)
  show ?thesis
    unfolding demo_queries_def Let_def f g demo_others
    by (simp add: stat_line_def s demo_transcript_def demo_number_texts)
qed

lemma demo_gate_eq:
  "demo_gate X clk (demo_proposal clk) (demo_universe3 clk) =
     Inr (take 11 (drop 18 (demo_transcript X clk)), demo_universe4 clk)"
proof -
  have t2: "get_t2 (demo_universe4 clk) = [mark_cvm_passed (clk 29) (demo_proposal clk)]"
    by (simp add: get_t2_def demo_tiers)
  have p: "promote (clk 30) cvm_gate_new (mark_cvm_passed (clk 29) (demo_proposal clk)) =
      Inr ((mark_cvm_passed (clk 29) (demo_proposal clk))\<lparr>tier := T1, art_updated_at := clk 30\<rparr>)"
    by (simp add: promote_def demo_artifact_defs)
  have id: "artifact_id (demo_proposal clk) = ''segment_rotation''" "tier (demo_proposal clk) = T2"
    by (simp_all add: demo_artifact_defs)
  show ?thesis
    unfolding demo_gate_def Let_def cvm_process_eq
    by (simp add: demo_proposal_passes steps_run_eq gate_passes_def run_records_def step_record_def t2
        demo_promotion_def p demo_step_line_def cvm_summary_def demo_transcript_def demo_number_texts
        demo_ms_def id)
qed

lemma demo_final_eq:
  assumes "iter_order (ord (demo_universe4 clk)) (artifacts (demo_universe4 clk))"
  shows "demo_final X ord (demo_universe4 clk) = Inr (take 6 (drop 29 (demo_transcript X clk)))"
proof -
  let ?o = "ord (demo_universe4 clk)"
  have passed: "length (filter cvm_gate_passed (hm_values ?o (artifacts (demo_universe4 clk)))) = 1"
    unfolding length_filter_hm_values [OF assms demo_orders(2)] demo_values
    by (simp add: demo_artifact_defs)
  have g: "length (get_t0 (demo_universe4 clk)) = 2" "length (get_t1 (demo_universe4 clk)) = 1"
    "length (get_t2 (demo_universe4 clk)) = 1"
    by (simp_all add: get_t0_def get_t1_def get_t2_def demo_tiers)
  have s: "fmlookup (statistics ?o (demo_universe4 clk)) ''total_artifacts'' = Some (JInt 4)"
    "fmlookup (statistics ?o (demo_universe4 clk)) ''t0_count'' = Some (JInt 2)"
    "fmlookup (statistics ?o (demo_universe4 clk)) ''t1_count'' = Some (JInt 1)"
    "fmlookup (statistics ?o (demo_universe4 clk)) ''t2_count'' = Some (JInt 1)"
    "fmlookup (statistics ?o (demo_universe4 clk)) ''cvm_gate_passed'' = Some (JInt 1)"
    by (simp_all add: statistics_def g demo_sizes passed)
  show ?thesis
    by (simp add: demo_final_def Let_def stat_line_def s demo_transcript_def)
qed

text \<open>
  C35: the example program of the universe crate runs without panic and prints the transcript: every query,
  count and verdict of its output is fixed, whatever the clock, the iteration order of the maps and the
  digest, and only the durations are those of the clock. The proposal passes all five steps and is
  promoted; the promoted copy is not added, so the final statistics still count it in T2.
\<close>

theorem universe_demo_transcript:
  assumes "lowers_ascii lower" and "\<And>u. iter_order (ord u) (artifacts u)"
  shows "universe_demo X lower ord clk = Inr (demo_transcript X clk)"
proof -
  have parts: "demo_transcript X clk =
      take 2 (demo_transcript X clk) @ take 15 (drop 2 (demo_transcript X clk)) @
      [demo_transcript X clk ! 17] @ take 11 (drop 18 (demo_transcript X clk)) @
      take 6 (drop 29 (demo_transcript X clk)) @ [demo_transcript X clk ! 35]"
    by (simp add: demo_transcript_def)
  have ends: "take 2 (demo_transcript X clk) = [''=== SEB L7 Universe Substrate Demo ==='' @ [newline], ''1. Loading repository...'']"
    "demo_transcript X clk ! 17 = ''7. Processing new artifact through CVMGate:''"
    "demo_transcript X clk ! 35 = [newline] @ ''=== Demo Complete ===''"
    by (simp_all add: demo_transcript_def)
  show ?thesis
    by (subst parts)
      (simp add: universe_demo_def Let_def demo_queries_eq [where ord = ord, OF assms] demo_gate_eq
        demo_final_eq [where ord = ord, OF assms(2)] ends)
qed

text \<open>An iteration order for every map: the keys in their order.\<close>

definition sorted_keys :: "universe \<Rightarrow> string list" where
  "sorted_keys u = sorted_list_of_fset (fmdom (artifacts u))"

theorem universe_demo_transcript_witness:
  "universe_demo demo_extern (map ascii_lower) sorted_keys int = Inr (demo_transcript demo_extern int)"
  by (rule universe_demo_transcript [OF lowers_ascii_map])
    (simp add: sorted_keys_def iter_order_def sorted_list_of_fset.rep_eq)

end
