(* ===== verification/Universe_Tests.thy ===== *)
theory Universe_Tests
  imports Universe_Demo
begin

text \<open>
  The unit tests of \<open>seb/universe/src\<close>, each a definition that says that its assertions hold, and the
  theorem that all of them hold in the model. An \<open>unwrap\<close> of a test fails it on an error. The clock and
  the iteration orders are arguments.
\<close>

section \<open>Tests of manifest.rs\<close>

definition test_artifact_creation :: "timestamp \<Rightarrow> timestamp \<Rightarrow> bool" where
  "test_artifact_creation t0 t1 \<longleftrightarrow>
     (let a = artifact_new t0 t1 ''blake3_core'' ''Blake3 Hash'' ''1.5.0'' ''rust'' 0
      in artifact_id a = ''blake3_core'' \<and> tier a = T0 \<and> \<not> cvm_gate_passed a)"

definition test_invariant_creation :: bool where
  "test_invariant_creation \<longleftrightarrow>
     (let i = invariant_with_proof ''blake3_collision_proof''
                (invariant_new ''collision_resistant'' ''Blake3 must be collision resistant'')
      in inv_name i = ''collision_resistant'' \<and> proof_reference i = Some ''blake3_collision_proof'')"

definition test_tier_serialization :: bool where
  "test_tier_serialization \<longleftrightarrow>
     tier_as_u8 T0 = 0 \<and> tier_from_u8 0 = Some T0 \<and> tier_as_str T2 = ''T2''"

definition test_language_conversion :: bool where
  "test_language_conversion \<longleftrightarrow>
     lang_as_str Rust = ''rust'' \<and> lang_from_str ''lean4'' = Lean4 \<and>
     lang_as_str (lang_from_str ''unknown'') = ''unknown''"

definition test_invariant_coverage :: "(nat \<Rightarrow> timestamp) \<Rightarrow> bool" where
  "test_invariant_coverage clk \<longleftrightarrow>
     (let a = add_invariant (invariant_new ''test_inv'' ''desc'')
                (artifact_new (clk 0) (clk 1) ''test'' ''Test'' ''1.0.0'' ''rust'' 0);
          b = add_invariant (invariant_with_proof ''test_proof'' (invariant_new ''test_inv'' ''desc''))
                (artifact_new (clk 2) (clk 3) ''test'' ''Test'' ''1.0.0'' ''rust'' 0)
      in \<not> verify_invariants_covered a \<and> verify_invariants_covered b)"

section \<open>Tests of search_substrate.rs\<close>

definition test_universe_creation :: bool where
  "test_universe_creation \<longleftrightarrow> hm_len (artifacts universe_new) = 0"

definition test_add_artifact :: "(nat \<Rightarrow> timestamp) \<Rightarrow> bool" where
  "test_add_artifact clk \<longleftrightarrow>
     (let u = add_artifact (artifact_new (clk 0) (clk 1) ''blake3'' ''Blake3 Hash'' ''1.5.0'' ''rust'' 0)
                universe_new
      in hm_len (artifacts u) = 1 \<and> length (get_t0 u) = 1)"

definition test_query_by_invariant :: "(nat \<Rightarrow> timestamp) \<Rightarrow> bool" where
  "test_query_by_invariant clk \<longleftrightarrow>
     (let i = invariant_new ''collision_resistant'' ''desc'';
          a = add_invariant i (artifact_new (clk 0) (clk 1) ''blake3'' ''Blake3'' ''1.0.0'' ''rust'' 0);
          u = add_artifact a universe_new
      in length (query_by_invariant u ''collision_resistant'') = 1)"

definition test_search_by_name ::
    "(string \<Rightarrow> string) \<Rightarrow> (universe \<Rightarrow> string list) \<Rightarrow> (nat \<Rightarrow> timestamp) \<Rightarrow> bool" where
  "test_search_by_name lower ord clk \<longleftrightarrow>
     (let a1 = artifact_new (clk 0) (clk 1) ''blake3'' ''Blake3 Hash'' ''1.0.0'' ''rust'' 0;
          a2 = artifact_new (clk 2) (clk 3) ''append_log'' ''Append Only Log'' ''1.0.0'' ''rust'' 1;
          u = add_artifact a2 (add_artifact a1 universe_new)
      in length (search_by_name lower (ord u) u ''blake'') = 1)"

definition test_query_by_language :: "(nat \<Rightarrow> timestamp) \<Rightarrow> bool" where
  "test_query_by_language clk \<longleftrightarrow>
     (let a1 = artifact_new (clk 0) (clk 1) ''proof1'' ''Proof'' ''1.0.0'' ''lean4'' 2;
          a2 = artifact_new (clk 2) (clk 3) ''impl1'' ''Implementation'' ''1.0.0'' ''rust'' 0;
          u = add_artifact a2 (add_artifact a1 universe_new)
      in case query_by_language u ''lean4'' of [a] \<Rightarrow> artifact_id a = ''proof1'' | _ \<Rightarrow> False)"

definition test_statistics :: "(universe \<Rightarrow> string list) \<Rightarrow> (nat \<Rightarrow> timestamp) \<Rightarrow> bool" where
  "test_statistics ord clk \<longleftrightarrow>
     (let u = add_artifact (artifact_new (clk 2) (clk 3) ''a2'' ''A2'' ''1.0.0'' ''rust'' 1)
                (add_artifact (artifact_new (clk 0) (clk 1) ''a1'' ''A1'' ''1.0.0'' ''rust'' 0) universe_new);
          stats = statistics (ord u) u
      in fmlookup stats ''total_artifacts'' = Some (JInt 2) \<and>
         fmlookup stats ''t0_count'' = Some (JInt 1) \<and> fmlookup stats ''t1_count'' = Some (JInt 1))"

section \<open>Tests of compile_verify_merge.rs\<close>

definition test_cvm_gate_process :: "extern \<Rightarrow> (nat \<Rightarrow> timestamp) \<Rightarrow> bool" where
  "test_cvm_gate_process X clk \<longleftrightarrow>
     (let a = artifact_new (clk 0) (clk 1) ''test_artifact'' ''Test Artifact'' ''1.0.0'' ''rust'' 2;
          a = add_test \<lparr>test_id = ''test_1'', test_framework = ''cargo test'', test_pass_count = 5,
                        test_last_run = clk 3\<rparr>
             (add_proof \<lparr>proof_id = ''test_proof'', proof_language = ''lean4'', proof_hash = ''abc123'',
                         proof_created_at = clk 2\<rparr>
             (add_invariant (invariant_with_proof ''test_proof'' (invariant_new ''test_inv'' ''description''))
             (with_doc_url ''https://example.com'' (with_source_path ''/src/test.rs'' a))))
      in case cvm_process X (\<lambda>k. clk (4 + k)) cvm_gate_new a of
           Inl e \<Rightarrow> False
         | Inr r \<Rightarrow> list_all sr_passed (res_steps r) \<and> res_passed r)"

definition test_cvm_gate_fails_on_empty_id :: "extern \<Rightarrow> (nat \<Rightarrow> timestamp) \<Rightarrow> bool" where
  "test_cvm_gate_fails_on_empty_id X clk \<longleftrightarrow>
     (let a = artifact_new (clk 0) (clk 1) [] ''Test'' ''1.0.0'' ''rust'' 2
      in case cvm_process X (\<lambda>k. clk (2 + k)) cvm_gate_new a of
           Inl e \<Rightarrow> False
         | Inr r \<Rightarrow> \<not> res_passed r)"

definition test_step_result :: "timestamp \<Rightarrow> bool" where
  "test_step_result now \<longleftrightarrow>
     (let s = \<lparr>sr_step = step_as_u8 Typecheck, sr_passed = True, sr_message = ''OK'', sr_timestamp = now,
               sr_duration_ms = 100\<rparr>
      in sr_step s = 1 \<and> sr_passed s)"

definition test_promote :: "(nat \<Rightarrow> timestamp) \<Rightarrow> bool" where
  "test_promote clk \<longleftrightarrow>
     (let a = (artifact_new (clk 0) (clk 1) ''promote_test'' ''Test'' ''1.0.0'' ''rust'' 2)
                \<lparr>cvm_gate_passed := True\<rparr>
      in case promote (clk 2) cvm_gate_new a of Inl e \<Rightarrow> False | Inr b \<Rightarrow> tier b = T1)"

section \<open>All tests hold\<close>

lemma manifest_tests:
  "test_artifact_creation t0 t1" "test_invariant_creation" "test_tier_serialization"
  "test_language_conversion" "test_invariant_coverage clk"
  by (simp_all add: test_artifact_creation_def test_invariant_creation_def test_tier_serialization_def
      test_language_conversion_def test_invariant_coverage_def manifest_builder_defs lang_from_str_def
      tier_from_u8_def verify_invariants_covered_def)

lemma index_tests:
  "test_universe_creation" "test_add_artifact clk" "test_query_by_invariant clk"
  "test_query_by_language clk" "test_statistics ord clk"
  by (simp_all add: test_universe_creation_def test_add_artifact_def test_query_by_invariant_def
      test_query_by_language_def test_statistics_def statistics_def get_t0_def get_t1_def query_mm
      resolve_def map_filter_simps add_artifact_def universe_new_def manifest_builder_defs
      lang_from_str_def tier_from_u8_def hm_len_upd)

lemma search_test:
  assumes "lowers_ascii lower" and "\<And>u. iter_order (ord u) (artifacts u)"
  shows "test_search_by_name lower ord clk"
proof -
  let ?a1 = "artifact_new (clk 0) (clk 1) ''blake3'' ''Blake3 Hash'' ''1.0.0'' ''rust'' 0"
  let ?a2 = "artifact_new (clk 2) (clk 3) ''append_log'' ''Append Only Log'' ''1.0.0'' ''rust'' 1"
  let ?u = "add_artifact ?a2 (add_artifact ?a1 universe_new)"
  have ord': "iter_order [''blake3'', ''append_log''] (artifacts ?u)"
    by (auto simp: iter_order_def add_artifact_def universe_new_def manifest_builder_defs)
  have vals: "hm_values [''blake3'', ''append_log''] (artifacts ?u) = [?a1, ?a2]"
    by (simp add: hm_values_def map_filter_simps add_artifact_def universe_new_def manifest_builder_defs)
  have "lower ''blake'' = ''blake''" "lower ''Blake3 Hash'' = ''blake3 hash''"
    "lower ''Append Only Log'' = ''append only log''"
    using assms(1) by (simp_all add: lowers_ascii_def ascii_lower_def char_of_eq_iff)
  then show ?thesis
    unfolding test_search_by_name_def Let_def search_by_name_def
      length_filter_hm_values [OF assms(2) ord'] vals
    by (simp add: manifest_builder_defs starts_with_def)
qed

lemma gate_tests:
  "test_cvm_gate_process X clk" "test_cvm_gate_fails_on_empty_id X clk" "test_step_result now"
  "test_promote clk"
  by (simp_all add: test_cvm_gate_process_def test_cvm_gate_fails_on_empty_id_def test_step_result_def
      test_promote_def cvm_process_eq steps_run_eq gate_passes_def well_formed_def proof_linked_def
      reviewable_def run_records_def step_record_def promote_def manifest_builder_defs lang_from_str_def
      tier_from_u8_def)

end
