(* ===== verification/Trace.thy ===== *)
theory Trace
  imports Externals
begin

text \<open>
  \<open>seb/reasoning/src/trace.rs\<close>: reasoning steps, traces of steps, the content address of a trace,
  its placeholder signature, the search for cycles in the parent relations, and the renderings.
  Identifiers are written where the code writes them; a rendering that slices a string can panic.
\<close>

section \<open>Data\<close>

datatype reasoning_step =
    Retrieve (source: string) (symbol: string) (result: json)
  | Verify (target: string) (method_name: string) (valid: bool) (error: "string option")
  | ApplyRule (rule_id: string) (rule_premises: "string list") (rule_conclusion: string)
  | CheckAuthorization (principal: string) (action: string) (resource: string) (allowed: bool)
      (reason: string)
  | Challenge (target_trace_id: string) (target_step_index: nat) (counter_evidence: string)
  | Rebuttal (challenge_trace_id: string) (response: string)
  | Conclude (conclusion: string) (confidence: fl)
  | Compose (sub_trace_ids: "string list") (composition_rule: string)

record traced_step =
  step_index :: nat
  step_timestamp :: timestamp
  step_payload :: reasoning_step
  step_hash :: string

datatype trace_relation =
    Extends string
  | Challenges string
  | Rebuts string
  | Composes "string list"

record reasoning_trace =
  trace_id :: string
  agent_id :: string
  competency :: string
  steps :: "traced_step list"
  parent_relations :: "trace_relation list"
  initiating_query :: "string option"
  mode :: string
  duration_ms :: u64
  created_at :: timestamp
  signature :: "string option"
  sequence_no :: u64

section \<open>What serde writes\<close>

text \<open>\<open>#[serde(tag = "type")]\<close>: the name of the variant first, then its fields.\<close>

fun step_to_json :: "reasoning_step \<Rightarrow> json" where
  "step_to_json (Retrieve src smb res) =
     JObj [(''type'', JStr ''Retrieve''), (''source'', JStr src), (''symbol'', JStr smb),
           (''result'', res)]"
| "step_to_json (Verify tgt mth ok err) =
     JObj [(''type'', JStr ''Verify''), (''target'', JStr tgt), (''method'', JStr mth),
           (''valid'', JBool ok), (''error'', jopt err)]"
| "step_to_json (ApplyRule rid prem con) =
     JObj [(''type'', JStr ''ApplyRule''), (''rule_id'', JStr rid), (''premises'', jstrs prem),
           (''conclusion'', JStr con)]"
| "step_to_json (CheckAuthorization p act res ok why) =
     JObj [(''type'', JStr ''CheckAuthorization''), (''principal'', JStr p), (''action'', JStr act),
           (''resource'', JStr res), (''allowed'', JBool ok), (''reason'', JStr why)]"
| "step_to_json (Challenge tid i ev) =
     JObj [(''type'', JStr ''Challenge''), (''target_trace_id'', JStr tid),
           (''target_step_index'', JInt (int i)), (''counter_evidence'', JStr ev)]"
| "step_to_json (Rebuttal tid r) =
     JObj [(''type'', JStr ''Rebuttal''), (''challenge_trace_id'', JStr tid), (''response'', JStr r)]"
| "step_to_json (Conclude con c) =
     JObj [(''type'', JStr ''Conclude''), (''conclusion'', JStr con), (''confidence'', jfloat c)]"
| "step_to_json (Compose ids r) =
     JObj [(''type'', JStr ''Compose''), (''sub_trace_ids'', jstrs ids),
           (''composition_rule'', JStr r)]"

definition traced_step_to_json :: "extern \<Rightarrow> traced_step \<Rightarrow> json" where
  "traced_step_to_json X s =
     JObj [(''index'', JInt (int (step_index s))),
           (''timestamp'', JStr (ts_serde X (step_timestamp s))),
           (''step'', step_to_json (step_payload s)),
           (''step_hash'', JStr (step_hash s))]"

fun relation_to_json :: "trace_relation \<Rightarrow> json" where
  "relation_to_json (Extends p) =
     JObj [(''kind'', JStr ''Extends''), (''parent_trace_id'', JStr p)]"
| "relation_to_json (Challenges p) =
     JObj [(''kind'', JStr ''Challenges''), (''parent_trace_id'', JStr p)]"
| "relation_to_json (Rebuts c) =
     JObj [(''kind'', JStr ''Rebuts''), (''challenge_trace_id'', JStr c)]"
| "relation_to_json (Composes ids) =
     JObj [(''kind'', JStr ''Composes''), (''sub_trace_ids'', jstrs ids)]"

definition jbytes :: "string option \<Rightarrow> json" where
  "jbytes sig = (case sig of None \<Rightarrow> JNull | Some bs \<Rightarrow> JArr (map (\<lambda>c. JInt (of_char c)) bs))"

text \<open>\<open>trace_id\<close> is marked \<open>#[serde(skip)]\<close>.\<close>

definition trace_to_json :: "extern \<Rightarrow> reasoning_trace \<Rightarrow> json" where
  "trace_to_json X t =
     JObj [(''agent_id'', JStr (agent_id t)),
           (''competency'', JStr (competency t)),
           (''steps'', JArr (map (traced_step_to_json X) (steps t))),
           (''parent_relations'', JArr (map relation_to_json (parent_relations t))),
           (''initiating_query'', jopt (initiating_query t)),
           (''mode'', JStr (mode t)),
           (''duration_ms'', JInt (uint (duration_ms t))),
           (''created_at'', JStr (ts_serde X (created_at t))),
           (''signature'', jbytes (signature t)),
           (''sequence_no'', JInt (uint (sequence_no t)))]"

section \<open>Operations\<close>

text \<open>
  \<open>description\<close> slices the first eight bytes of a challenged identifier, and casts
  \<open>confidence * 100.0\<close> to an \<open>i32\<close>.
\<close>

fun description :: "reasoning_step \<Rightarrow> string res" where
  "description (Retrieve src smb res) = Inr (''Retrieve('' @ smb @ '')'')"
| "description (Verify tgt mth ok err) = Inr (''Verify('' @ mth @ '')'')"
| "description (ApplyRule rid prem con) = Inr (''ApplyRule('' @ rid @ '')'')"
| "description (CheckAuthorization p act res ok why) = Inr (''CheckAuth('' @ act @ '')'')"
| "description (Challenge tid i ev) =
     res_bind (slice_to 8 tid) (\<lambda>short. Inr (''Challenge('' @ short @ '')''))"
| "description (Rebuttal tid r) = Inr ''Rebuttal''"
| "description (Conclude con c) =
     Inr (''Conclude(conf='' @ show_int (fl_to_i32 (fl_mul binary64 c (Fin False 100))) @ '')'')"
| "description (Compose ids r) = Inr ''Compose''"

definition trace_new :: "timestamp \<Rightarrow> string \<Rightarrow> string \<Rightarrow> u64 \<Rightarrow> reasoning_trace" where
  "trace_new now agent cmp seq =
     \<lparr>trace_id = [], agent_id = agent, competency = cmp, steps = [], parent_relations = [],
      initiating_query = None, mode = ''live'', duration_ms = 0, created_at = now,
      signature = None, sequence_no = seq\<rparr>"

text \<open>\<open>serde_json::to_string\<close> cannot fail on these types, so \<open>unwrap_or_default\<close> is not reached.\<close>

definition hash_step :: "extern \<Rightarrow> reasoning_step \<Rightarrow> string" where
  "hash_step X s = blake3_hex X (json_text X (step_to_json s))"

definition add_step :: "extern \<Rightarrow> timestamp \<Rightarrow> reasoning_step \<Rightarrow> reasoning_trace \<Rightarrow> reasoning_trace" where
  "add_step X now s t =
     t\<lparr>steps := steps t @
        [\<lparr>step_index = length (steps t), step_timestamp = now, step_payload = s,
          step_hash = hash_step X s\<rparr>]\<rparr>"

definition add_parent :: "trace_relation \<Rightarrow> reasoning_trace \<Rightarrow> reasoning_trace" where
  "add_parent r t = t\<lparr>parent_relations := parent_relations t @ [r]\<rparr>"

definition set_query :: "string \<Rightarrow> reasoning_trace \<Rightarrow> reasoning_trace" where
  "set_query q t = t\<lparr>initiating_query := Some q\<rparr>"

definition set_mode :: "string \<Rightarrow> reasoning_trace \<Rightarrow> reasoning_trace" where
  "set_mode m t = t\<lparr>mode := m\<rparr>"

text \<open>\<open>finalize\<close> returns the identifier and the trace that carries it.\<close>

definition finalize :: "extern \<Rightarrow> reasoning_trace \<Rightarrow> string \<times> reasoning_trace" where
  "finalize X t =
     (let old_signature = signature t;
          t1 = t\<lparr>trace_id := [], signature := None\<rparr>;
          tid = blake3_hex X (json_text X (trace_to_json X t1));
          t2 = t1\<lparr>trace_id := tid\<rparr>;
          t3 = t2\<lparr>signature := old_signature\<rparr>
      in (tid, t3))"

definition sign :: "extern \<Rightarrow> string \<Rightarrow> reasoning_trace \<Rightarrow> reasoning_trace" where
  "sign X key t =
     (let (tid, t1) = finalize X (t\<lparr>signature := None\<rparr>)
      in t1\<lparr>signature := Some (blake3_hex X tid)\<rparr>)"

definition verify :: "string \<Rightarrow> reasoning_trace \<Rightarrow> bool" where
  "verify key t = (case signature t of None \<Rightarrow> False | Some s \<Rightarrow> 0 < length s)"

text \<open>
  The two nested loops over the relations of a trace and over the parts of a composition visit the
  parent identifiers in order and stop at the first that reports a cycle; \<open>relation_ids\<close> lists them.
  The visited set only has \<open>contains\<close> and \<open>insert\<close> applied to it; here it is a list, newest first.
\<close>

fun relation_ids :: "trace_relation \<Rightarrow> string list" where
  "relation_ids (Extends p) = [p]"
| "relation_ids (Challenges p) = [p]"
| "relation_ids (Rebuts c) = [c]"
| "relation_ids (Composes ids) = ids"

definition parent_ids :: "reasoning_trace \<Rightarrow> string list" where
  "parent_ids t = concat (map relation_ids (parent_relations t))"

definition find_trace :: "reasoning_trace list \<Rightarrow> string \<Rightarrow> reasoning_trace option" where
  "find_trace all tid = List.find (\<lambda>t. trace_id t = tid) all"

function visit_ids ::
    "reasoning_trace list \<Rightarrow> string list \<Rightarrow> string list \<Rightarrow> bool \<times> string list" where
  "visit_ids all [] V = (False, V)"
| "visit_ids all (i # is) V =
     (if i \<in> set V then (True, V)
      else case find_trace all i of
             None \<Rightarrow> visit_ids all is (i # V)
           | Some t \<Rightarrow>
               (case visit_ids all (parent_ids t) (i # V) of
                  (True, W) \<Rightarrow> (True, W)
                | (False, W) \<Rightarrow> visit_ids all is W))"
  by pat_completeness auto

text \<open>The visited list only grows; with this the nested recursion terminates.\<close>

lemma visit_ids_visited: "visit_ids_dom (all, is, V) \<Longrightarrow> suffix V (snd (visit_ids all is V))"
proof (induction all "is" V rule: visit_ids.pinduct)
  case (1 all V)
  then show ?case by (simp add: visit_ids.psimps)
next
  case (2 all i "is" V)
  show ?case
  proof (cases "i \<in> set V")
    case True
    with 2 show ?thesis by (simp add: visit_ids.psimps)
  next
    case False
    show ?thesis
    proof (cases "find_trace all i")
      case None
      have "suffix V (i # V)" by (rule suffix_ConsI) simp
      with 2 False None show ?thesis
        by (auto simp: visit_ids.psimps intro: suffix_order.trans)
    next
      case (Some t)
      obtain b W where W: "visit_ids all (parent_ids t) (i # V) = (b, W)" by fastforce
      have "suffix (i # V) W" using 2(3) [OF False Some] W by simp
      then have VW: "suffix V W" by (metis suffix_ConsD)
      show ?thesis
      proof (cases b)
        case True
        with VW 2(1) False Some W show ?thesis by (simp add: visit_ids.psimps)
      next
        case f: False
        have "suffix W (snd (visit_ids all is W))"
          using 2(4) [OF False Some W [symmetric]] f by simp
        with VW 2(1) False Some W f show ?thesis
          by (simp add: visit_ids.psimps)
      qed
    qed
  qed
qed

definition unvisited :: "reasoning_trace list \<Rightarrow> string list \<Rightarrow> nat" where
  "unvisited all V = card (trace_id ` set all - set V)"

lemma unvisited_antimono: "set V \<subseteq> set W \<Longrightarrow> unvisited all W \<le> unvisited all V"
  unfolding unvisited_def by (rule card_mono) auto

lemma find_trace_SomeD: "find_trace all i = Some t \<Longrightarrow> t \<in> set all \<and> trace_id t = i"
  unfolding find_trace_def by (rule find_SomeD)

lemma unvisited_Cons:
  "find_trace all i = Some t \<Longrightarrow> i \<notin> set V \<Longrightarrow> unvisited all (i # V) < unvisited all V"
  unfolding unvisited_def
  by (rule psubset_card_mono) (auto dest!: find_trace_SomeD)

termination visit_ids
proof (relation "measures [\<lambda>(all, is, V). unvisited all V, \<lambda>(all, is, V). length is]", goal_cases)
  case (2 all i "is" V)
  have "unvisited all (i # V) \<le> unvisited all V" by (rule unvisited_antimono) auto
  then show ?case by auto
next
  case (3 all i "is" V t)
  then show ?case by (simp add: unvisited_Cons)
next
  case (4 all i "is" V t x W)
  then have "suffix (i # V) W" using visit_ids_visited [of all "parent_ids t" "i # V"]
    by (metis snd_conv)
  then have "unvisited all W \<le> unvisited all (i # V)"
    by (intro unvisited_antimono set_mono_suffix)
  also have "\<dots> < unvisited all V" using 4(1,2) by (simp add: unvisited_Cons)
  finally show ?case by simp
qed simp

text \<open>\<open>_has_cycles_internal\<close> on one identifier, and \<open>has_cycles\<close>.\<close>

definition has_cycles :: "reasoning_trace \<Rightarrow> reasoning_trace list \<Rightarrow> bool" where
  "has_cycles t all = fst (visit_ids all [trace_id t] [])"

section \<open>Renderings\<close>

definition step_s_expr :: "traced_step \<Rightarrow> string res" where
  "step_s_expr s =
     res_bind (description (step_payload s)) (\<lambda>d.
       Inr (''(step '' @ show_nat (step_index s) @ '' '' @ dq @ d @ dq @ '' '' @ step_hash s @ '')''))"

definition to_s_expr :: "reasoning_trace \<Rightarrow> string res" where
  "to_s_expr t =
     res_bind (res_map step_s_expr (steps t)) (\<lambda>ss.
       let parts = [''(trace-id '' @ dq @ trace_id t @ dq @ '')'',
                    ''(agent '' @ dq @ agent_id t @ dq @ '')'',
                    ''(competency '' @ dq @ competency t @ dq @ '')''] @ ss
       in Inr (''(reasoning '' @ str_join '' '' parts @ '')''))"

definition to_json_ld :: "extern \<Rightarrow> reasoning_trace \<Rightarrow> json res" where
  "to_json_ld X t =
     res_bind (res_map (\<lambda>s. res_bind (description (step_payload s)) (\<lambda>d. Inr (jmap
         [(''@type'', JStr ''ReasoningStep''),
          (''index'', JInt (int (step_index s))),
          (''timestamp'', JStr (to_rfc3339 X (step_timestamp s))),
          (''description'', JStr d),
          (''hash'', JStr (step_hash s))]))) (steps t)) (\<lambda>ss. Inr (jmap
       [(''@context'', JStr ''https://www.w3.org/ns/activitystreams''),
        (''@id'', JStr (''trace:'' @ trace_id t)),
        (''@type'', JStr ''ReasoningTrace''),
        (''agent'', JStr (agent_id t)),
        (''competency'', JStr (competency t)),
        (''steps'', JArr ss),
        (''duration'', JStr (''PT'' @ show_nat (unat (duration_ms t)) @ ''MS'')),
        (''created'', JStr (to_rfc3339 X (created_at t)))]))"

fun step_symbols :: "reasoning_step \<Rightarrow> string list" where
  "step_symbols (Retrieve src smb res) = [smb]"
| "step_symbols (CheckAuthorization p act res ok why) = [p, act, res]"
| "step_symbols _ = []"

text \<open>\<open>sort\<close> orders strings by their bytes, \<open>dedup\<close> removes equal neighbours.\<close>

definition extract_symbols :: "reasoning_trace \<Rightarrow> string list" where
  "extract_symbols t =
     remdups_adj (sort (concat (map (\<lambda>s. step_symbols (step_payload s)) (steps t))))"

section \<open>Facts about descriptions\<close>

text \<open>The steps whose description can be written.\<close>

fun describable :: "reasoning_step \<Rightarrow> bool" where
  "describable (Challenge tid i ev) \<longleftrightarrow> is_char_boundary tid 8"
| "describable _ \<longleftrightarrow> True"

lemma description_defined: "(\<exists>d. description s = Inr d) \<longleftrightarrow> describable s"
  by (cases s) (auto simp: slice_to_def res_simps)

lemma description_Inl: "description s = Inl e \<longleftrightarrow> e = Panic \<and> \<not> describable s"
  by (cases s) (auto simp: slice_to_def res_simps)

lemma step_s_expr_defined: "(\<exists>d. step_s_expr s = Inr d) \<longleftrightarrow> describable (step_payload s)"
  by (auto simp: step_s_expr_def res_bind_Inr_iff simp flip: description_defined)

section \<open>The step log\<close>

interpretation trace_log:
  append_log "\<lambda>(now, s). add_step X now s" "\<lambda>t. map (\<lambda>r. (step_timestamp r, step_payload r)) (steps t)"
  for X
  by unfold_locales (auto simp: add_step_def)

datatype trace_op =
    AddStep timestamp reasoning_step
  | AddParent trace_relation
  | SetQuery string
  | SetMode string
  | Finalize
  | Sign string

fun apply_trace_op :: "extern \<Rightarrow> trace_op \<Rightarrow> reasoning_trace \<Rightarrow> reasoning_trace" where
  "apply_trace_op X (AddStep now s) t = add_step X now s t"
| "apply_trace_op X (AddParent r) t = add_parent r t"
| "apply_trace_op X (SetQuery q) t = set_query q t"
| "apply_trace_op X (SetMode m) t = set_mode m t"
| "apply_trace_op X Finalize t = snd (finalize X t)"
| "apply_trace_op X (Sign key) t = sign X key t"

definition intact :: "extern \<Rightarrow> reasoning_trace \<Rightarrow> bool" where
  "intact X t \<longleftrightarrow>
     (\<forall>i < length (steps t). step_index (steps t ! i) = i \<and>
        step_hash (steps t ! i) = hash_step X (step_payload (steps t ! i)))"

lemmas trace_op_defs =
  add_step_def add_parent_def set_query_def set_mode_def finalize_def sign_def

lemma finalize_eq:
  "finalize X t =
     (let tid = blake3_hex X (json_text X (trace_to_json X (t\<lparr>signature := None\<rparr>)))
      in (tid, t\<lparr>trace_id := tid\<rparr>))"
  by (simp add: finalize_def Let_def trace_to_json_def)

lemma steps_apply_trace_op:
  "steps (apply_trace_op X op t) =
     (case op of AddStep now s \<Rightarrow> steps (add_step X now s t) | _ \<Rightarrow> steps t)"
  by (cases op) (simp_all add: trace_op_defs Let_def)

lemma intact_apply: "intact X t \<Longrightarrow> intact X (apply_trace_op X op t)"
  by (cases op) (auto simp: intact_def trace_op_defs Let_def nth_append)

lemma intact_fold: "intact X t \<Longrightarrow> intact X (fold (apply_trace_op X) ops t)"
  by (induction ops arbitrary: t) (auto simp: intact_apply)

fun recorded :: "trace_op \<Rightarrow> (timestamp \<times> reasoning_step) list" where
  "recorded (AddStep now s) = [(now, s)]"
| "recorded _ = []"

lemma steps_fold:
  "map (\<lambda>r. (step_timestamp r, step_payload r)) (steps (fold (apply_trace_op X) ops t)) =
     map (\<lambda>r. (step_timestamp r, step_payload r)) (steps t) @ concat (map recorded ops)"
proof (induction ops arbitrary: t)
  case (Cons op ops)
  then show ?case by (cases op) (simp_all add: trace_op_defs Let_def)
qed simp

section \<open>The serialized form determines the content\<close>

fun fl_finite :: "fl \<Rightarrow> bool" where
  "fl_finite (Fin s m) = True"
| "fl_finite _ = False"

fun finite_confidence :: "reasoning_step \<Rightarrow> bool" where
  "finite_confidence (Conclude con c) = fl_finite c"
| "finite_confidence _ = True"

lemma jopt_inj [simp]: "jopt a = jopt b \<longleftrightarrow> a = b"
  by (auto simp: jopt_def split: option.splits)

lemma inj_JStr: "inj JStr"
  by (simp add: inj_def)

lemma jstrs_inj [simp]: "jstrs a = jstrs b \<longleftrightarrow> a = b"
  by (simp add: jstrs_def inj_map_eq_map [OF inj_JStr])

lemma jfloat_inj: "fl_finite a \<Longrightarrow> fl_finite b \<Longrightarrow> jfloat a = jfloat b \<longleftrightarrow> a = b"
  by (cases a; cases b) auto

lemma step_to_json_inj:
  "finite_confidence a \<Longrightarrow> finite_confidence b \<Longrightarrow> step_to_json a = step_to_json b \<longleftrightarrow> a = b"
  by (cases a; cases b) (auto simp: jfloat_inj)

lemma relation_to_json_inj [simp]: "relation_to_json a = relation_to_json b \<longleftrightarrow> a = b"
  by (cases a; cases b) auto

lemma map_eq_on:
  assumes "\<And>x y. x \<in> set xs \<Longrightarrow> y \<in> set ys \<Longrightarrow> f x = f y \<Longrightarrow> x = y"
  shows "map f xs = map f ys \<longleftrightarrow> xs = ys"
  using assms
proof (induction xs arbitrary: ys)
  case (Cons x xs)
  then show ?case by (cases ys) auto
qed auto

lemma traced_step_to_json_inj:
  assumes "ts_serde_injective X" and "finite_confidence (step_payload a)"
    and "finite_confidence (step_payload b)" and "traced_step_to_json X a = traced_step_to_json X b"
  shows "a = b"
  using assms
  by (intro traced_step.equality) (auto simp: traced_step_to_json_def ts_serde_injective_def step_to_json_inj)

definition finite_steps :: "reasoning_trace \<Rightarrow> bool" where
  "finite_steps t \<longleftrightarrow> list_all (\<lambda>s. finite_confidence (step_payload s)) (steps t)"

lemma steps_json_inj:
  assumes "ts_serde_injective X" and "finite_steps t" and "finite_steps u"
  shows "map (traced_step_to_json X) (steps t) = map (traced_step_to_json X) (steps u) \<longleftrightarrow> steps t = steps u"
  using assms by (intro map_eq_on traced_step_to_json_inj) (auto simp: finite_steps_def list_all_iff)

lemma uint_inj: "uint (a :: u64) = uint b \<Longrightarrow> a = b"
  by (simp add: word_uint_eq_iff)

lemma relations_json_inj:
  "map relation_to_json xs = map relation_to_json ys \<longleftrightarrow> xs = ys"
  by (rule map_eq_on) simp

section \<open>Cycles in the parent relations\<close>

text \<open>
  The graph the search is about, stated without the search: a trace leads to the identifiers that its
  relations name, in their order.
\<close>

definition parent_rel :: "reasoning_trace list \<Rightarrow> (string \<times> string) set" where
  "parent_rel all =
     {(i, j). \<exists>t r. find_trace all i = Some t \<and> r \<in> set (parent_relations t) \<and>
        (r = Extends j \<or> r = Challenges j \<or> r = Rebuts j \<or> (\<exists>ids. r = Composes ids \<and> j \<in> set ids))}"

definition successors :: "reasoning_trace list \<Rightarrow> string \<Rightarrow> string list" where
  "successors all i =
     (case find_trace all i of None \<Rightarrow> []
      | Some t \<Rightarrow> concat (map (\<lambda>r. case r of Extends p \<Rightarrow> [p] | Challenges p \<Rightarrow> [p] | Rebuts c \<Rightarrow> [c]
          | Composes ids \<Rightarrow> ids) (parent_relations t)))"

lemma relation_ids_eq:
  "relation_ids = (\<lambda>r. case r of Extends p \<Rightarrow> [p] | Challenges p \<Rightarrow> [p] | Rebuts c \<Rightarrow> [c] | Composes ids \<Rightarrow> ids)"
  by (auto simp: fun_eq_iff split: trace_relation.splits)

lemma successors_find:
  "find_trace all i = None \<Longrightarrow> successors all i = []"
  "find_trace all i = Some t \<Longrightarrow> successors all i = parent_ids t"
  by (simp_all add: successors_def parent_ids_def relation_ids_eq)

lemma relation_ids_iff:
  "j \<in> set (relation_ids r) \<longleftrightarrow>
     r = Extends j \<or> r = Challenges j \<or> r = Rebuts j \<or> (\<exists>ids. r = Composes ids \<and> j \<in> set ids)"
  by (cases r) auto

lemma parent_rel_iff: "(i, j) \<in> parent_rel all \<longleftrightarrow> j \<in> set (successors all i)"
  by (cases "find_trace all i")
    (auto simp: parent_rel_def successors_find parent_ids_def relation_ids_iff)

text \<open>
  A list of identifiers, newest first, in which the successors of every entry were visited after it.
\<close>

definition descends :: "reasoning_trace list \<Rightarrow> string list \<Rightarrow> bool" where
  "descends all N \<longleftrightarrow> (\<forall>xs u zs. N = xs @ u # zs \<longrightarrow> set (successors all u) \<subseteq> set xs)"

lemma descends_Nil [simp]: "descends all []"
  by (simp add: descends_def)

lemma descendsD: "descends all N \<Longrightarrow> N = xs @ u # zs \<Longrightarrow> set (successors all u) \<subseteq> set xs"
  by (simp add: descends_def)

lemma append_decomp:
  assumes "A @ B = xs @ u # zs"
  obtains (left) us where "A = xs @ u # us" | (right) us where "xs = A @ us" and "B = us @ u # zs"
  using assms by (auto simp: append_eq_append_conv2 append_eq_Cons_conv)

lemma descends_append:
  assumes "descends all A" and "descends all B"
  shows "descends all (A @ B)"
  unfolding descends_def
proof (intro allI impI)
  fix xs u zs
  assume "A @ B = xs @ u # zs"
  then show "set (successors all u) \<subseteq> set xs"
    by (rule append_decomp) (use descendsD [OF assms(1)] descendsD [OF assms(2)] in fastforce)+
qed

lemma descends_snoc:
  assumes "descends all N" and "set (successors all i) \<subseteq> set N"
  shows "descends all (N @ [i])"
  unfolding descends_def
proof (intro allI impI)
  fix xs u zs
  assume "N @ [i] = xs @ u # zs"
  then show "set (successors all u) \<subseteq> set xs"
  proof (rule append_decomp)
    fix us assume "xs = N @ us" and "[i] = us @ u # zs"
    with assms(2) show ?thesis by (cases us) auto
  qed (use assms(1) in \<open>auto simp: descends_def\<close>)
qed

text \<open>A search without a report leaves such a list of newly visited identifiers.\<close>

lemma visit_ids_False:
  "visit_ids all is V = (False, W) \<Longrightarrow> \<exists>N. W = N @ V \<and> set is \<subseteq> set N \<and> descends all N"
proof (induction all "is" V arbitrary: W rule: visit_ids.induct)
  case (1 all V)
  then show ?case by auto
next
  case (2 all i "is" V)
  then have i: "i \<notin> set V" by (auto split: if_splits)
  show ?case
  proof (cases "find_trace all i")
    case None
    with 2 i obtain N where N: "W = N @ i # V" "set is \<subseteq> set N" "descends all N" by fastforce
    have "descends all (N @ [i])"
      using N(3) by (rule descends_snoc) (simp add: successors_find None)
    with N show ?thesis by (intro exI [of _ "N @ [i]"]) auto
  next
    case (Some t)
    obtain b U where U: "visit_ids all (parent_ids t) (i # V) = (b, U)" by fastforce
    with 2(4) i Some have nb: "\<not> b" and rest: "visit_ids all is U = (False, W)"
      by (auto split: bool.splits)
    from 2(2) [OF i Some] U nb obtain M where
      M: "U = M @ i # V" "set (parent_ids t) \<subseteq> set M" "descends all M" by auto
    from 2(3) [OF i Some U [symmetric]] nb rest obtain N where
      N: "W = N @ U" "set is \<subseteq> set N" "descends all N" by auto
    have "descends all (N @ M @ [i])"
      using M N by (intro descends_append descends_snoc) (simp_all add: successors_find Some)
    with M N show ?thesis by (intro exI [of _ "N @ M @ [i]"]) auto
  qed
qed

lemma descends_reach:
  assumes "descends all N" and "(u, v) \<in> (parent_rel all)\<^sup>+" and "N = xs @ u # zs"
  shows "v \<in> set xs"
  using assms(2)
proof (induction rule: trancl_induct)
  case (base v)
  then show ?case using assms(1,3) by (auto simp: descends_def parent_rel_iff)
next
  case (step v w)
  from step.IH obtain ys zs' where "xs = ys @ v # zs'" by (auto simp: in_set_conv_decomp)
  with assms(3) have "N = ys @ v # (zs' @ u # zs)" by simp
  with assms(1) have "set (successors all v) \<subseteq> set ys" by (auto simp: descends_def)
  with step.hyps(2) \<open>xs = ys @ v # zs'\<close> show ?case by (auto simp: parent_rel_iff)
qed

lemma descends_acyclic: "descends all N \<Longrightarrow> u \<in> set N \<Longrightarrow> (u, u) \<notin> (parent_rel all)\<^sup>+"
  by (metis descends_reach split_list_first)

lemma descends_closed:
  assumes "descends all N" and "(u, v) \<in> (parent_rel all)\<^sup>*" and "u \<in> set N"
  shows "v \<in> set N"
  using assms(2)
proof (cases rule: rtranclE [consumes 1, case_names base step])
  case base
  with assms(3) show ?thesis by simp
next
  case (step w)
  with assms(2) have "(u, v) \<in> (parent_rel all)\<^sup>+" by (simp add: rtrancl_into_trancl1)
  moreover from assms(3) obtain xs zs where "N = xs @ u # zs" by (auto simp: in_set_conv_decomp)
  ultimately show ?thesis using descends_reach [OF assms(1)] by auto
qed

text \<open>
  A reference for the search: the end of a path, which goes down the parent relations by position. The
  search reports exactly that two paths from the trace have the same end.
\<close>

fun path_end :: "reasoning_trace list \<Rightarrow> string list \<Rightarrow> nat list \<Rightarrow> string option" where
  "path_end all is [] = None"
| "path_end all [] (k # ks) = None"
| "path_end all (i # is) (0 # ks) = (if ks = [] then Some i else path_end all (successors all i) ks)"
| "path_end all (i # is) (Suc k # ks) = path_end all is (k # ks)"

definition path_ends :: "reasoning_trace list \<Rightarrow> string list \<Rightarrow> string set" where
  "path_ends all is = {j. \<exists>p. path_end all is p = Some j}"

definition single_paths :: "reasoning_trace list \<Rightarrow> string list \<Rightarrow> bool" where
  "single_paths all is \<longleftrightarrow>
     (\<forall>p q j. path_end all is p = Some j \<and> path_end all is q = Some j \<longrightarrow> p = q)"

lemma path_end_Nil [simp]: "path_end all [] p = None"
  by (cases p) simp_all

lemma path_end_Cons_iff:
  "path_end all (i # is) p = Some j \<longleftrightarrow>
     p = [0] \<and> j = i \<or>
     (\<exists>q. p = 0 # q \<and> path_end all (successors all i) q = Some j) \<or>
     (\<exists>k ks. p = Suc k # ks \<and> path_end all is (k # ks) = Some j)"
  by (cases "(all, i # is, p)" rule: path_end.cases) auto

lemma path_ends_Nil [simp]: "path_ends all [] = {}"
  by (simp add: path_ends_def)

lemma path_ends_nonempty: "j \<in> path_ends all is \<longleftrightarrow> (\<exists>k ks. path_end all is (k # ks) = Some j)"
proof
  assume "j \<in> path_ends all is"
  then obtain p where "path_end all is p = Some j" by (auto simp: path_ends_def)
  then show "\<exists>k ks. path_end all is (k # ks) = Some j" by (cases p) auto
qed (auto simp: path_ends_def)

lemma path_ends_Cons:
  "path_ends all (i # is) = insert i (path_ends all (successors all i) \<union> path_ends all is)"
proof (rule set_eqI)
  show "j \<in> path_ends all (i # is) \<longleftrightarrow> j \<in> insert i (path_ends all (successors all i) \<union> path_ends all is)" for j
    unfolding Un_iff insert_iff path_ends_nonempty [of _ _ "is"]
    unfolding path_ends_def path_end_Cons_iff by blast
qed

lemma single_paths_Nil [simp]: "single_paths all []"
  by (simp add: single_paths_def)

lemma single_paths_Cons:
  "single_paths all (i # is) \<longleftrightarrow>
     i \<notin> path_ends all (successors all i) \<and> i \<notin> path_ends all is \<and>
     path_ends all (successors all i) \<inter> path_ends all is = {} \<and>
     single_paths all (successors all i) \<and> single_paths all is" (is "?l \<longleftrightarrow> ?r")
proof
  assume ?l
  then have same: "p = q" if "path_end all (i # is) p = Some j" "path_end all (i # is) q = Some j" for p q j
    using that unfolding single_paths_def by blast
  have here: "path_end all (i # is) [0] = Some i" by simp
  have down: "path_end all (i # is) (0 # q) = Some j" if "path_end all (successors all i) q = Some j" for q j
    using that by (cases q) simp_all
  have across: "\<exists>k ks. path_end all (i # is) (Suc k # ks) = Some j" if "j \<in> path_ends all is" for j
    using that unfolding path_ends_nonempty by auto
  show ?r
  proof (intro conjI)
    show "i \<notin> path_ends all (successors all i)"
      using same [OF here down] by (fastforce simp: path_ends_def)
    show "i \<notin> path_ends all is" using same [OF here] across by blast
    show "path_ends all (successors all i) \<inter> path_ends all is = {}"
    proof (rule equals0I, elim IntE)
      fix j assume "j \<in> path_ends all (successors all i)" and j: "j \<in> path_ends all is"
      then obtain q where "path_end all (successors all i) q = Some j" by (auto simp: path_ends_def)
      with same [OF down] across [OF j] show False by blast
    qed
    show "single_paths all (successors all i)"
      unfolding single_paths_def using same [OF down down] by blast
    show "single_paths all is"
      unfolding single_paths_def
    proof (intro allI impI, elim conjE)
      fix p q j assume pq: "path_end all is p = Some j" "path_end all is q = Some j"
      then obtain k ks l ls where "p = k # ks" "q = l # ls" by (cases p; cases q) auto
      with same [of "Suc k # ks" j "Suc l # ls"] pq show "p = q" by simp
    qed
  qed
next
  assume r: ?r
  show ?l
    unfolding single_paths_def
  proof (intro allI impI, elim conjE)
    fix p q j assume "path_end all (i # is) p = Some j" "path_end all (i # is) q = Some j"
    with r show "p = q"
      unfolding path_end_Cons_iff single_paths_def path_ends_def by auto (blast | fastforce)+
  qed
qed

text \<open>What the search finds, and what it has visited when it finds nothing.\<close>

lemma visit_ids_exact:
  "if fst (visit_ids all is V)
   then \<not> single_paths all is \<or> path_ends all is \<inter> set V \<noteq> {}
   else single_paths all is \<and> path_ends all is \<inter> set V = {} \<and>
     set (snd (visit_ids all is V)) = set V \<union> path_ends all is"
proof (induction all "is" V rule: visit_ids.induct)
  case (2 all i "is" V)
  show ?case
  proof (cases "i \<in> set V")
    case True
    then show ?thesis by (auto simp: path_ends_Cons)
  next
    case new: False
    show ?thesis
    proof (cases "find_trace all i")
      case None
      then have "successors all i = []" by (rule successors_find)
      with 2(1) [OF new None] new None show ?thesis
        by (auto simp: path_ends_Cons single_paths_Cons split: if_splits)
    next
      case (Some t)
      obtain b W where W: "visit_ids all (parent_ids t) (i # V) = (b, W)" by fastforce
      have s: "successors all i = parent_ids t" by (rule successors_find) (rule Some)
      note down = 2(2) [OF new Some, unfolded W]
      show ?thesis
      proof (cases b)
        case True
        with down new Some W show ?thesis by (auto simp: path_ends_Cons single_paths_Cons s)
      next
        case False
        with 2(3) [OF new Some W [symmetric]] down new Some W show ?thesis
          by (auto simp: path_ends_Cons single_paths_Cons s split: if_splits)
      qed
    qed
  qed
qed simp

lemma has_cycles_single: "has_cycles t all \<longleftrightarrow> \<not> single_paths all [trace_id t]"
  using visit_ids_exact [of all "[trace_id t]" "[]"] by (auto simp: has_cycles_def split: if_splits)

section \<open>Properties\<close>

text \<open>
  C7: every way of building a trace keeps it intact: after any sequence of operations on a new trace,
  the steps are those that were added, in order, each with its position as index and with the hash
  of its own serialized form.
\<close>

theorem trace_integrity:
  "intact X (fold (apply_trace_op X) ops (trace_new now agent cmp seq)) \<and>
   map (\<lambda>r. (step_timestamp r, step_payload r))
     (steps (fold (apply_trace_op X) ops (trace_new now agent cmp seq))) = concat (map recorded ops)"
  using intact_fold [of X "trace_new now agent cmp seq" ops] steps_fold [of X ops]
  by (simp add: intact_def trace_new_def)

text \<open>
  C8: the identifier is a function of the content: \<open>finalize\<close> changes nothing but the identifier, its
  result does not depend on the previous identifier or the signature, so finalizing again gives the
  same identifier, signing does not change it, and it has 64 characters.
\<close>

theorem finalize_content_address:
  assumes "digest_is_hex64 X"
  shows "snd (finalize X t) = t\<lparr>trace_id := fst (finalize X t)\<rparr> \<and>
    fst (finalize X (t\<lparr>trace_id := i, signature := s\<rparr>)) = fst (finalize X t) \<and>
    finalize X (snd (finalize X t)) = finalize X t \<and>
    trace_id (sign X key t) = fst (finalize X t) \<and>
    length (fst (finalize X t)) = 64"
  using assms by (simp add: finalize_eq sign_def Let_def trace_to_json_def digest_is_hex64_def)

theorem finalize_content_address_witness:
  "length (fst (finalize demo_extern (trace_new 0 ''agent_001'' ''verify'' 1))) = 64"
  using finalize_content_address [OF digest_hex64_demo] by blast

text \<open>
  C16: the hashed text covers the whole content. For traces whose confidences are finite, the JSON
  trees that \<open>finalize\<close> hashes are equal exactly when the traces agree in every field other than the
  identifier and the signature.
\<close>

theorem trace_json_determines_content:
  assumes "ts_serde_injective X" and "finite_steps t" and "finite_steps u"
  shows "trace_to_json X (t\<lparr>signature := None\<rparr>) = trace_to_json X (u\<lparr>signature := None\<rparr>) \<longleftrightarrow>
    u = t\<lparr>trace_id := trace_id u, signature := signature u\<rparr>"
proof
  assume "trace_to_json X (t\<lparr>signature := None\<rparr>) = trace_to_json X (u\<lparr>signature := None\<rparr>)"
  with assms show "u = t\<lparr>trace_id := trace_id u, signature := signature u\<rparr>"
    by (intro reasoning_trace.equality)
      (auto simp: trace_to_json_def steps_json_inj relations_json_inj ts_serde_injective_def
          dest: uint_inj)
next
  assume "u = t\<lparr>trace_id := trace_id u, signature := signature u\<rparr>"
  then obtain i s where "u = t\<lparr>trace_id := i, signature := s\<rparr>" by blast
  then show "trace_to_json X (t\<lparr>signature := None\<rparr>) = trace_to_json X (u\<lparr>signature := None\<rparr>)"
    by (simp add: trace_to_json_def)
qed

theorem trace_json_determines_content_witness:
  "trace_to_json demo_extern (set_mode ''live'' (trace_new 0 ''a'' ''c'' 1)) \<noteq>
   trace_to_json demo_extern (set_mode ''replay'' (trace_new 0 ''a'' ''c'' 1))"
proof -
  let ?t = "set_mode ''live'' (trace_new 0 ''a'' ''c'' 1)"
  let ?u = "set_mode ''replay'' (trace_new 0 ''a'' ''c'' 1)"
  have "finite_steps ?t" "finite_steps ?u"
    by (simp_all add: finite_steps_def set_mode_def trace_new_def)
  from trace_json_determines_content [OF ts_serde_injective_demo this]
  show ?thesis by (simp add: set_mode_def trace_new_def)
qed

text \<open>
  C17: what the search for cycles reports, exactly: that two different paths down the parent relations lead
  from the trace to the same identifier. A cycle gives such paths, but so does a shared ancestor.
\<close>

theorem has_cycles_exact:
  "has_cycles t all \<longleftrightarrow>
     (\<exists>p q j. p \<noteq> q \<and> path_end all [trace_id t] p = Some j \<and> path_end all [trace_id t] q = Some j)"
  unfolding has_cycles_single single_paths_def by blast

text \<open>
  C18: the search for cycles terminates and misses none: if an identifier reachable from a trace lies
  on a cycle of the parent relations, \<open>has_cycles\<close> reports it.
\<close>

theorem has_cycles_finds_cycles:
  assumes "(trace_id t, u) \<in> (parent_rel all)\<^sup>*" and "(u, u) \<in> (parent_rel all)\<^sup>+"
  shows "has_cycles t all"
proof (rule ccontr)
  assume "\<not> has_cycles t all"
  then obtain W where "visit_ids all [trace_id t] [] = (False, W)"
    by (cases "visit_ids all [trace_id t] []") (auto simp: has_cycles_def)
  then obtain N where "trace_id t \<in> set N" and N: "descends all N"
    by (auto dest!: visit_ids_False simp del: visit_ids.simps)
  with assms(1) have "u \<in> set N" by (blast intro: descends_closed)
  with N assms(2) show False by (blast dest: descends_acyclic)
qed

definition demo_trace :: "string \<Rightarrow> trace_relation list \<Rightarrow> reasoning_trace" where
  "demo_trace i rs = (trace_new 0 ''agent'' ''verify'' 1)\<lparr>trace_id := i, parent_relations := rs\<rparr>"

definition two_cycle :: "reasoning_trace list" where
  "two_cycle = [demo_trace ''a'' [Extends ''b''], demo_trace ''b'' [Challenges ''a'']]"

theorem has_cycles_finds_cycles_witness: "has_cycles (demo_trace ''a'' []) two_cycle"
proof -
  have e: "(''a'', ''b'') \<in> parent_rel two_cycle" "(''b'', ''a'') \<in> parent_rel two_cycle"
    by (simp_all add: parent_rel_iff successors_def find_trace_def two_cycle_def demo_trace_def
        parent_ids_def)
  then have "(''a'', ''a'') \<in> (parent_rel two_cycle)\<^sup>+" by (meson trancl.simps)
  moreover have "trace_id (demo_trace ''a'' []) = ''a''" by (simp add: demo_trace_def)
  ultimately show ?thesis by (intro has_cycles_finds_cycles [of _ "''a''"]) simp_all
qed

definition diamond :: "reasoning_trace list" where
  "diamond =
     [demo_trace ''top'' [Composes [''left'', ''right'']], demo_trace ''left'' [Extends ''base''],
      demo_trace ''right'' [Extends ''base''], demo_trace ''base'' []]"

text \<open>
  The report of a cycle can be wrong. The visited set is not restored when the search leaves a
  branch, so two traces that share an ancestor are taken for a cycle although the parent relations
  have none.
\<close>

lemma has_cycles_false_positive:
  "has_cycles (hd diamond) diamond \<and> acyclic (parent_rel diamond)"
proof -
  let ?rank = "\<lambda>i. if i = ''top'' then 2 else if i = ''left'' \<or> i = ''right'' then 1 else 0 :: nat"
  have "(i, j) \<in> measure ?rank" if "(j, i) \<in> parent_rel diamond" for i j
    using that
    by (auto simp: parent_rel_iff successors_def find_trace_def diamond_def demo_trace_def
        parent_ids_def split: if_splits)
  then have "(parent_rel diamond)\<inverse> \<subseteq> measure ?rank" by auto
  then have "acyclic ((parent_rel diamond)\<inverse>)"
    by (rule wf_acyclic [OF wf_subset [OF wf_measure]])
  moreover have "has_cycles (hd diamond) diamond"
    by (simp add: has_cycles_def diamond_def demo_trace_def find_trace_def parent_ids_def)
  ultimately show ?thesis by simp
qed

text \<open>
  When a rendering panics. \<open>to_s_expr\<close> returns exactly when the challenged identifier of every
  challenge step can be cut after its eighth byte, and it fails in no other way than by a panic;
  \<open>to_json_ld\<close> returns on the same traces.
\<close>

lemma renderings_defined:
  "((\<exists>s. to_s_expr t = Inr s) \<longleftrightarrow> (\<forall>s \<in> set (steps t). describable (step_payload s))) \<and>
   (to_s_expr t = Inl e \<longrightarrow> e = Panic) \<and>
   ((\<exists>j. to_json_ld X t = Inr j) \<longleftrightarrow> (\<exists>s. to_s_expr t = Inr s))"
proof -
  have 1: "(\<exists>s. to_s_expr t = Inr s) \<longleftrightarrow> (\<forall>s \<in> set (steps t). describable (step_payload s))"
    using res_map_defined_iff [of step_s_expr "steps t"]
    by (auto simp: to_s_expr_def res_bind_Inr_iff step_s_expr_defined)
  have "e = Panic" if "to_s_expr t = Inl e"
    using that
    by (auto simp: to_s_expr_def res_bind_Inl_iff step_s_expr_def description_Inl elim!: res_map_InlE)
  moreover have "(\<exists>j. to_json_ld X t = Inr j) \<longleftrightarrow> (\<forall>s \<in> set (steps t). describable (step_payload s))"
    unfolding to_json_ld_def res_bind_Inr_iff
    by (simp add: res_map_defined_iff res_bind_Inr_iff description_defined)
  ultimately show ?thesis using 1 by blast
qed

text \<open>
  The symbols of a trace are sorted without duplicates, and they are the symbols of its retrieval
  steps and the principals, actions and resources of its authorization checks.
\<close>

lemma extract_symbols_correct:
  "sorted_wrt (<) (extract_symbols t) \<and>
   set (extract_symbols t) =
     {s. \<exists>r \<in> set (steps t). case step_payload r of
           Retrieve src smb res \<Rightarrow> s = smb
         | CheckAuthorization p act res ok why \<Rightarrow> s \<in> {p, act, res}
         | _ \<Rightarrow> False}"
proof -
  have "set (step_symbols p) = {s. case p of Retrieve src smb res \<Rightarrow> s = smb
      | CheckAuthorization p act res ok why \<Rightarrow> s \<in> {p, act, res} | _ \<Rightarrow> False}" for p
    by (cases p) auto
  then show ?thesis by (auto simp: extract_symbols_def sorted_remdups_adj_strict)
qed

text \<open>
  The placeholder signature binds neither the key nor the content: signing does not depend on the
  key, and the signature of one trace makes every other trace verify, under any key.
\<close>

lemma signature_binds_nothing:
  assumes "digest_is_hex64 X"
  shows "sign X key t = sign X key' t \<and> verify key'' (u\<lparr>signature := signature (sign X key t)\<rparr>)"
proof -
  from assms have "blake3_hex X s \<noteq> []" for s
    by (metis digest_is_hex64_def list.size(3) zero_neq_numeral)
  then show ?thesis by (simp add: sign_def verify_def Let_def split_beta)
qed

lemma signature_binds_nothing_witness:
  "verify ''k2'' ((demo_trace ''forged'' [])\<lparr>signature := signature (sign demo_extern ''k1'' (demo_trace ''t'' []))\<rparr>)"
  using signature_binds_nothing [OF digest_hex64_demo] by blast

text \<open>
  The confidence of a conclusion is described as a whole percentage: for every confidence from 0 to
  1 the rounded product stays between 0 and 100, and 1 gives 100.
\<close>

lemma confidence_percentage:
  assumes "0 \<le> m" and "m \<le> 1"
  shows "\<exists>p \<le> 100. description (Conclude con (Fin False m)) = Inr (''Conclude(conf='' @ show_nat p @ '')'') \<and>
    (m = 1 \<longrightarrow> p = 100)"
proof -
  have le: "0 \<le> m * 100" "m * 100 \<le> of_nat 100" using assms by simp_all
  have p: "(100 :: nat) < 2 ^ fl_prec binary64" by (simp add: binary64_def)
  note r = fl_round_mag_le [OF regular_formats(2) p le]
  let ?p = "nat \<lfloor>rnd binary64 (m * 100)\<rfloor>"
  have "?p \<le> 100" using r(3) by (simp add: nat_le_iff floor_le_iff)
  moreover have "0 \<le> \<lfloor>rnd binary64 (m * 100)\<rfloor>" "\<lfloor>rnd binary64 (m * 100)\<rfloor> \<le> 100"
    using r(2,3) by (simp_all add: floor_le_iff)
  moreover have "?p = 100" if "m = 1"
    using that rnd_of_nat [OF regular_formats(2) p] by simp
  ultimately show ?thesis
    by (intro exI [of _ ?p]) (simp add: r(1) clamp_i32_def show_int_def)
qed

lemma confidence_percentage_witness:
  "description (Conclude ''c'' (Fin False 1)) = Inr ''Conclude(conf=100)''"
proof -
  have "show_nat 100 = ''100''" by code_simp
  with confidence_percentage [of 1 "''c''"] show ?thesis by auto
qed

end
