(* ===== verification/A2A_Protocol.thy ===== *)
theory A2A_Protocol
  imports Trace "HOL-Library.Multiset"
begin

text \<open>
  \<open>seb/reasoning/src/a2a_protocol.rs\<close>: event types and partitions with their encodings (instances of
  \<open>codec\<close>), the payloads, the constructors of events, and the handler whose event log only grows (an
  instance of \<open>append_log\<close>). A handler operation locks its log for the push alone, so an execution
  of concurrent emitters is a sequence of these operations.
\<close>

section \<open>Event types and partitions\<close>

datatype event_type =
  TraceStart | StepEvent | TraceComplete | ChallengeEvent | Composition | Query | Response

fun event_as_u16 :: "event_type \<Rightarrow> u16" where
  "event_as_u16 TraceStart = 0x0300"
| "event_as_u16 StepEvent = 0x0301"
| "event_as_u16 TraceComplete = 0x0302"
| "event_as_u16 ChallengeEvent = 0x0303"
| "event_as_u16 Composition = 0x0304"
| "event_as_u16 Query = 0x0305"
| "event_as_u16 Response = 0x0306"

definition event_from_u16 :: "u16 \<Rightarrow> event_type option" where
  "event_from_u16 v =
     (if v = 0x0300 then Some TraceStart else if v = 0x0301 then Some StepEvent
      else if v = 0x0302 then Some TraceComplete else if v = 0x0303 then Some ChallengeEvent
      else if v = 0x0304 then Some Composition else if v = 0x0305 then Some Query
      else if v = 0x0306 then Some Response else None)"

interpretation event_codec: codec event_as_u16 event_from_u16 "\<lambda>_. True"
proof
  show "event_from_u16 (event_as_u16 e) = Some e" for e
    by (cases e) (simp_all add: event_from_u16_def)
  show "event_from_u16 c = Some e \<Longrightarrow> event_as_u16 e = c \<and> True" for c e
    by (auto simp: event_from_u16_def split: if_splits)
qed

datatype partition = AgentTraces string | ChallengesPart | Compositions | Queries

fun partition_path :: "partition \<Rightarrow> string" where
  "partition_path (AgentTraces agent) = ''reasoning/'' @ agent"
| "partition_path ChallengesPart = ''reasoning/challenges''"
| "partition_path Compositions = ''reasoning/compositions''"
| "partition_path Queries = ''reasoning/queries''"

definition partition_from_path :: "string \<Rightarrow> partition option" where
  "partition_from_path path =
     (if path = ''reasoning/challenges'' then Some ChallengesPart
      else if path = ''reasoning/compositions'' then Some Compositions
      else if path = ''reasoning/queries'' then Some Queries
      else if starts_with path ''reasoning/'' then
        (case strip_prefix ''reasoning/'' path of
           None \<Rightarrow> None
         | Some agent \<Rightarrow>
             if agent \<noteq> [] \<and> agent \<noteq> ''challenges'' \<and> agent \<noteq> ''compositions'' \<and> agent \<noteq> ''queries''
             then Some (AgentTraces agent) else None)
      else None)"

text \<open>The partitions whose path is their own: an agent must not have the name of a global stream.\<close>

fun proper_partition :: "partition \<Rightarrow> bool" where
  "proper_partition (AgentTraces agent) \<longleftrightarrow>
     agent \<noteq> [] \<and> agent \<noteq> ''challenges'' \<and> agent \<noteq> ''compositions'' \<and> agent \<noteq> ''queries''"
| "proper_partition _ \<longleftrightarrow> True"

interpretation partition_codec: codec partition_path partition_from_path proper_partition
proof
  show "proper_partition p \<Longrightarrow> partition_from_path (partition_path p) = Some p" for p
    by (cases p) (simp_all add: partition_from_path_def starts_with_def)
  show "partition_from_path c = Some p \<Longrightarrow> partition_path p = c \<and> proper_partition p" for c p
    by (auto simp: partition_from_path_def strip_prefix_Some_iff split: if_splits option.splits)
qed

section \<open>Payloads\<close>

record trace_start_payload =
  tsp_trace_id :: string
  tsp_agent_id :: string
  tsp_competency :: string
  tsp_query :: "string option"

record step_payload_data =
  stp_trace_id :: string
  stp_step_index :: nat
  stp_step_json :: json
  stp_step_hash :: string

record trace_complete_payload =
  tcp_trace_id :: string
  tcp_duration_ms :: u64
  tcp_step_count :: nat
  tcp_confidence :: "fl option"

record challenge_payload =
  chp_challenge_trace_id :: string
  chp_target_trace_id :: string
  chp_target_step_index :: "nat option"
  chp_counter_evidence :: string

record composition_payload =
  cop_composition_trace_id :: string
  cop_sub_trace_ids :: "string list"
  cop_composition_rule :: string

record query_payload =
  qp_query_id :: string
  qp_agent_id :: string
  qp_query_type :: string
  qp_query_data :: json

record response_payload =
  rp_query_id :: string
  rp_responding_agent :: string
  rp_trace_ids :: "string list"
  rp_results :: "json list"

text \<open>What each payload serializes to.\<close>

definition trace_start_tree :: "trace_start_payload \<Rightarrow> json" where
  "trace_start_tree p =
     JObj [(''trace_id'', JStr (tsp_trace_id p)), (''agent_id'', JStr (tsp_agent_id p)),
           (''competency'', JStr (tsp_competency p)), (''query'', jopt (tsp_query p))]"

definition step_tree :: "step_payload_data \<Rightarrow> json" where
  "step_tree p =
     JObj [(''trace_id'', JStr (stp_trace_id p)), (''step_index'', JInt (int (stp_step_index p))),
           (''step_json'', stp_step_json p), (''step_hash'', JStr (stp_step_hash p))]"

definition trace_complete_tree :: "trace_complete_payload \<Rightarrow> json" where
  "trace_complete_tree p =
     JObj [(''trace_id'', JStr (tcp_trace_id p)), (''duration_ms'', JInt (uint (tcp_duration_ms p))),
           (''step_count'', JInt (int (tcp_step_count p))),
           (''confidence'', case tcp_confidence p of None \<Rightarrow> JNull | Some c \<Rightarrow> jfloat c)]"

definition challenge_tree :: "challenge_payload \<Rightarrow> json" where
  "challenge_tree p =
     JObj [(''challenge_trace_id'', JStr (chp_challenge_trace_id p)),
           (''target_trace_id'', JStr (chp_target_trace_id p)),
           (''target_step_index'',
              case chp_target_step_index p of None \<Rightarrow> JNull | Some i \<Rightarrow> JInt (int i)),
           (''counter_evidence'', JStr (chp_counter_evidence p))]"

definition composition_tree :: "composition_payload \<Rightarrow> json" where
  "composition_tree p =
     JObj [(''composition_trace_id'', JStr (cop_composition_trace_id p)),
           (''sub_trace_ids'', jstrs (cop_sub_trace_ids p)),
           (''composition_rule'', JStr (cop_composition_rule p))]"

section \<open>Events\<close>

record a2a_event =
  event_code :: u16
  event_timestamp :: timestamp
  event_partition :: string
  event_payload :: json

definition event_new :: "timestamp \<Rightarrow> event_type \<Rightarrow> partition \<Rightarrow> a2a_event" where
  "event_new now ty p =
     \<lparr>event_code = event_as_u16 ty, event_timestamp = now, event_partition = partition_path p,
      event_payload = jmap []\<rparr>"

definition with_trace_start ::
    "timestamp \<Rightarrow> string \<Rightarrow> string \<Rightarrow> string \<Rightarrow> string option \<Rightarrow> a2a_event" where
  "with_trace_start now agent cmp tid query =
     (event_new now TraceStart (AgentTraces agent))
       \<lparr>event_payload := to_value (trace_start_tree
          \<lparr>tsp_trace_id = tid, tsp_agent_id = agent, tsp_competency = cmp, tsp_query = query\<rparr>)\<rparr>"

definition with_step :: "extern \<Rightarrow> timestamp \<Rightarrow> string \<Rightarrow> nat \<Rightarrow> json \<Rightarrow> a2a_event" where
  "with_step X now tid i step_json =
     (let h = blake3_hex X (json_text X step_json)
      in (event_new now StepEvent Queries)
           \<lparr>event_payload := to_value (step_tree
              \<lparr>stp_trace_id = tid, stp_step_index = i, stp_step_json = step_json,
               stp_step_hash = h\<rparr>)\<rparr>)"

text \<open>\<open>uuid\<close> is the text of the fresh \<open>Uuid::new_v4()\<close>.\<close>

definition with_challenge ::
    "timestamp \<Rightarrow> string \<Rightarrow> string \<Rightarrow> string \<Rightarrow> nat option \<Rightarrow> a2a_event" where
  "with_challenge now uuid target_id evidence i =
     (event_new now ChallengeEvent ChallengesPart)
       \<lparr>event_payload := to_value (challenge_tree
          \<lparr>chp_challenge_trace_id = uuid, chp_target_trace_id = target_id,
           chp_target_step_index = i, chp_counter_evidence = evidence\<rparr>)\<rparr>"

definition with_composition ::
    "timestamp \<Rightarrow> string \<Rightarrow> string list \<Rightarrow> string \<Rightarrow> a2a_event" where
  "with_composition now cid subs rule =
     (event_new now Composition Compositions)
       \<lparr>event_payload := to_value (composition_tree
          \<lparr>cop_composition_trace_id = cid, cop_sub_trace_ids = subs, cop_composition_rule = rule\<rparr>)\<rparr>"

definition as_json_line :: "extern \<Rightarrow> a2a_event \<Rightarrow> string" where
  "as_json_line X e =
     json_text X (JObj [(''event_type'', JInt (uint (event_code e))),
                        (''timestamp'', JStr (ts_serde X (event_timestamp e))),
                        (''partition'', JStr (event_partition e)),
                        (''payload'', event_payload e)])"

section \<open>The handler\<close>

record a2a_handler =
  handler_agent :: string
  event_log :: "a2a_event list"

definition handler_new :: "string \<Rightarrow> a2a_handler" where
  "handler_new agent = \<lparr>handler_agent = agent, event_log = []\<rparr>"

definition log_push :: "a2a_event \<Rightarrow> a2a_handler \<Rightarrow> a2a_handler" where
  "log_push e h = h\<lparr>event_log := event_log h @ [e]\<rparr>"

definition emit_trace_start ::
    "timestamp \<Rightarrow> string \<Rightarrow> string \<Rightarrow> string option \<Rightarrow> a2a_handler \<Rightarrow> a2a_handler" where
  "emit_trace_start now cmp tid query h =
     log_push (with_trace_start now (handler_agent h) cmp tid query) h"

definition emit_step ::
    "extern \<Rightarrow> timestamp \<Rightarrow> string \<Rightarrow> nat \<Rightarrow> json \<Rightarrow> a2a_handler \<Rightarrow> a2a_handler" where
  "emit_step X now tid i step_json h = log_push (with_step X now tid i step_json) h"

definition emit_trace_complete ::
    "timestamp \<Rightarrow> string \<Rightarrow> u64 \<Rightarrow> nat \<Rightarrow> fl option \<Rightarrow> a2a_handler \<Rightarrow> a2a_handler" where
  "emit_trace_complete now tid dur n conf h =
     log_push ((event_new now TraceComplete (AgentTraces (handler_agent h)))
       \<lparr>event_payload := to_value (trace_complete_tree
          \<lparr>tcp_trace_id = tid, tcp_duration_ms = dur, tcp_step_count = n,
           tcp_confidence = conf\<rparr>)\<rparr>) h"

definition emit_challenge ::
    "timestamp \<Rightarrow> string \<Rightarrow> string \<Rightarrow> string \<Rightarrow> nat option \<Rightarrow> a2a_handler \<Rightarrow> a2a_handler" where
  "emit_challenge now uuid target_id evidence i h =
     log_push (with_challenge now uuid target_id evidence i) h"

definition emit_composition ::
    "timestamp \<Rightarrow> string \<Rightarrow> string list \<Rightarrow> string \<Rightarrow> a2a_handler \<Rightarrow> a2a_handler" where
  "emit_composition now cid subs rule h = log_push (with_composition now cid subs rule) h"

definition get_events :: "a2a_handler \<Rightarrow> a2a_event list" where
  "get_events h = event_log h"

definition get_events_by_partition :: "a2a_handler \<Rightarrow> partition \<Rightarrow> a2a_event list" where
  "get_events_by_partition h p = filter (\<lambda>e. event_partition e = partition_path p) (event_log h)"

definition get_events_by_type :: "a2a_handler \<Rightarrow> event_type \<Rightarrow> a2a_event list" where
  "get_events_by_type h ty = filter (\<lambda>e. event_code e = event_as_u16 ty) (event_log h)"

interpretation event_log: append_log log_push get_events
  by unfold_locales (simp add: log_push_def get_events_def)

text \<open>The log read by partition and by event code, as the two queries do.\<close>

interpretation partition_log: keyed_log log_push get_events event_partition
  by unfold_locales

interpretation code_log: keyed_log log_push get_events event_code
  by unfold_locales

lemma get_events_by_fold:
  "get_events_by_partition (fold log_push es h) p =
     get_events_by_partition h p @ filter (\<lambda>e. event_partition e = partition_path p) es"
  "get_events_by_type (fold log_push es h) ty =
     get_events_by_type h ty @ filter (\<lambda>e. event_code e = event_as_u16 ty) es"
  using partition_log.by_key.query_fold [where es = es and s = h and k = "partition_path p"]
    code_log.by_key.query_fold [where es = es and s = h and k = "event_as_u16 ty"]
  by (simp_all add: get_events_by_partition_def get_events_by_type_def get_events_def)

section \<open>Executions of a handler\<close>

datatype a2a_op =
    OpTraceStart timestamp string string "string option"
  | OpStep timestamp string nat json
  | OpTraceComplete timestamp string u64 nat "fl option"
  | OpChallenge timestamp string string string "nat option"
  | OpComposition timestamp string "string list" string

fun apply_a2a_op :: "extern \<Rightarrow> a2a_op \<Rightarrow> a2a_handler \<Rightarrow> a2a_handler" where
  "apply_a2a_op X (OpTraceStart now cmp tid q) h = emit_trace_start now cmp tid q h"
| "apply_a2a_op X (OpStep now tid i j) h = emit_step X now tid i j h"
| "apply_a2a_op X (OpTraceComplete now tid d n c) h = emit_trace_complete now tid d n c h"
| "apply_a2a_op X (OpChallenge now u tid ev i) h = emit_challenge now u tid ev i h"
| "apply_a2a_op X (OpComposition now cid ids r) h = emit_composition now cid ids r h"

text \<open>The type and the partition of the event an operation emits.\<close>

fun op_type :: "a2a_op \<Rightarrow> event_type" where
  "op_type (OpTraceStart now cmp tid q) = TraceStart"
| "op_type (OpStep now tid i j) = StepEvent"
| "op_type (OpTraceComplete now tid d n c) = TraceComplete"
| "op_type (OpChallenge now u tid ev i) = ChallengeEvent"
| "op_type (OpComposition now cid ids r) = Composition"

fun op_partition :: "string \<Rightarrow> a2a_op \<Rightarrow> partition" where
  "op_partition agent (OpStep now tid i j) = Queries"
| "op_partition agent (OpChallenge now u tid ev i) = ChallengesPart"
| "op_partition agent (OpComposition now cid ids r) = Compositions"
| "op_partition agent _ = AgentTraces agent"

text \<open>The event itself: what a handler of that name logs first.\<close>

definition emitted :: "extern \<Rightarrow> string \<Rightarrow> a2a_op \<Rightarrow> a2a_event" where
  "emitted X agent op = hd (event_log (apply_a2a_op X op (handler_new agent)))"

lemmas emit_defs =
  emit_trace_start_def emit_step_def emit_trace_complete_def emit_challenge_def emit_composition_def
  with_trace_start_def with_step_def with_challenge_def with_composition_def event_new_def

lemma apply_a2a_op_push: "apply_a2a_op X op h = log_push (emitted X (handler_agent h) op) h"
  by (cases op) (simp_all add: emitted_def emit_defs log_push_def handler_new_def)

lemma emitted_code [simp]: "event_code (emitted X agent op) = event_as_u16 (op_type op)"
  by (cases op) (simp_all add: emitted_def emit_defs log_push_def handler_new_def Let_def)

lemma emitted_partition [simp]:
  "event_partition (emitted X agent op) = partition_path (op_partition agent op)"
  by (cases op) (simp_all add: emitted_def emit_defs log_push_def handler_new_def Let_def)

lemma handler_run:
  "fold (apply_a2a_op X) ops h = fold log_push (map (emitted X (handler_agent h)) ops) h"
proof (induction ops arbitrary: h)
  case (Cons op ops)
  then show ?case by (simp add: apply_a2a_op_push log_push_def)
qed simp

lemma get_events_run:
  "get_events (fold (apply_a2a_op X) ops h) = get_events h @ map (emitted X (handler_agent h)) ops"
  by (simp add: handler_run event_log.entries_fold)

abbreviation run_handler :: "extern \<Rightarrow> string \<Rightarrow> a2a_op list \<Rightarrow> a2a_handler" where
  "run_handler X agent ops \<equiv> fold (apply_a2a_op X) ops (handler_new agent)"

lemma event_log_run: "event_log (run_handler X agent ops) = map (emitted X agent) ops"
  using get_events_run [of X ops "handler_new agent"] by (simp add: get_events_def handler_new_def)

section \<open>Properties\<close>


text \<open>
  C25: for an agent without a reserved name, the queries by partition separate the log: the events of a
  partition are those of the operations that emit to it, in order, and the agent's own stream and the
  three global streams together hold every event once.
\<close>

theorem handler_streams_split:
  assumes agent: "proper_partition (AgentTraces agent)" and p: "proper_partition p"
  shows "get_events_by_partition (run_handler X agent ops) p =
      map (emitted X agent) (filter (\<lambda>op. op_partition agent op = p) ops) \<and>
    mset (get_events (run_handler X agent ops)) =
      mset (get_events_by_partition (run_handler X agent ops) (AgentTraces agent)) +
      mset (get_events_by_partition (run_handler X agent ops) ChallengesPart) +
      mset (get_events_by_partition (run_handler X agent ops) Compositions) +
      mset (get_events_by_partition (run_handler X agent ops) Queries)"
proof -
  have proper: "proper_partition (op_partition agent op)" for op
    using agent by (cases op) auto
  have stream: "get_events_by_partition (run_handler X agent ops) q =
      map (emitted X agent) (filter (\<lambda>op. op_partition agent op = q) ops)"
    if "proper_partition q" for q
    using partition_codec.filter_enc [where ys = ops and f = "op_partition agent", OF proper that]
    by (simp add: get_events_by_partition_def event_log_run filter_map comp_def)
  have "mset ops = mset (filter (\<lambda>op. op_partition agent op = AgentTraces agent) ops) +
      mset (filter (\<lambda>op. op_partition agent op = ChallengesPart) ops) +
      mset (filter (\<lambda>op. op_partition agent op = Compositions) ops) +
      mset (filter (\<lambda>op. op_partition agent op = Queries) ops)"
  proof (induction ops)
    case (Cons op ops)
    then show ?case by (cases op) simp_all
  qed simp
  then have "image_mset (emitted X agent) (mset ops) =
      mset (map (emitted X agent) (filter (\<lambda>op. op_partition agent op = AgentTraces agent) ops)) +
      mset (map (emitted X agent) (filter (\<lambda>op. op_partition agent op = ChallengesPart) ops)) +
      mset (map (emitted X agent) (filter (\<lambda>op. op_partition agent op = Compositions) ops)) +
      mset (map (emitted X agent) (filter (\<lambda>op. op_partition agent op = Queries) ops))"
    by (metis image_mset_union mset_map)
  with agent p show ?thesis by (simp add: stream get_events_def event_log_run)
qed

theorem handler_streams_split_witness:
  "get_events_by_partition
     (run_handler demo_extern ''agent_001''
        [OpTraceStart 0 ''verify'' ''t'' None, OpStep 1 ''t'' 0 JNull]) Queries =
   [emitted demo_extern ''agent_001'' (OpStep 1 ''t'' 0 JNull)]"
proof -
  have "proper_partition (AgentTraces ''agent_001'')" "proper_partition Queries" by simp_all
  from handler_streams_split [OF this, of demo_extern "[OpTraceStart 0 ''verify'' ''t'' None, OpStep 1 ''t'' 0 JNull]"]
  show ?thesis by simp
qed

text \<open>
  An agent with a reserved name is not kept apart: when the handler's agent is called
  \<open>challenges\<close>, the traces it starts are answered as events of the global challenge stream, and the
  path of that stream is never read back as the agent's partition.
\<close>

lemma reserved_agent_name_collides:
  assumes "handler_agent h = ''challenges''"
  shows "with_trace_start now ''challenges'' cmp tid q
      \<in> set (get_events_by_partition (emit_trace_start now cmp tid q h) ChallengesPart) \<and>
    partition_from_path (event_partition (with_trace_start now ''challenges'' cmp tid q)) = Some ChallengesPart"
  using assms
  by (simp add: get_events_by_partition_def emit_trace_start_def log_push_def with_trace_start_def
      event_new_def partition_from_path_def)

lemma reserved_agent_name_collides_witness:
  "with_trace_start 0 ''challenges'' ''c'' ''t'' None
     \<in> set (get_events_by_partition (emit_trace_start 0 ''c'' ''t'' None (handler_new ''challenges'')) ChallengesPart)"
  using reserved_agent_name_collides [of "handler_new ''challenges''"] by (simp add: handler_new_def)

text \<open>
  Every event of a handler carries a code that decodes, and the query by type answers with the
  events that decode to it, in order: those of the operations of that type. No handler operation emits a
  query or a response.
\<close>

lemma handler_events_typed:
  "get_events_by_type (run_handler X agent ops) ty =
     filter (\<lambda>e. event_from_u16 (event_code e) = Some ty) (get_events (run_handler X agent ops)) \<and>
   get_events_by_type (run_handler X agent ops) ty =
     map (emitted X agent) (filter (\<lambda>op. op_type op = ty) ops) \<and>
   (\<forall>e \<in> set (get_events (run_handler X agent ops)).
      \<exists>t. event_from_u16 (event_code e) = Some t \<and> t \<noteq> Query \<and> t \<noteq> Response)"
proof -
  have "event_as_u16 (op_type op) = event_as_u16 ty \<longleftrightarrow> op_type op = ty" for op
    by (blast dest: event_codec.enc_inj [OF TrueI TrueI])
  moreover have "op_type op \<noteq> Query \<and> op_type op \<noteq> Response" for op by (cases op) simp_all
  ultimately show ?thesis
    by (auto simp: get_events_by_type_def get_events_def event_log_run filter_map comp_def
        event_codec.dec_Some_iff intro!: filter_cong)
qed

text \<open>
  The hash of a step event is not the hash of the step in the trace. For every reasoning step, the
  event made from its JSON value hashes the value with its keys in sorted order, the trace hashes the
  fields in the order of their declaration, and the two trees always differ.
\<close>

lemma step_event_hashes_other_text:
  "jget ''step_hash'' (event_payload (with_step X now tid i (to_value (step_to_json s)))) =
     Some (JStr (blake3_hex X (json_text X (to_value (step_to_json s))))) \<and>
   step_hash (last (steps (add_step X now s t))) = blake3_hex X (json_text X (step_to_json s)) \<and>
   to_value (step_to_json s) \<noteq> step_to_json s"
proof -
  have "to_value (step_to_json s) \<noteq> step_to_json s"
    by (cases s) (simp_all add: jmap_def)
  then show ?thesis
    by (simp add: with_step_def Let_def step_tree_def jmap_def add_step_def hash_step_def)
qed

end
