(* ===== verification/Streaming.thy ===== *)
theory Streaming
  imports A2A_Protocol
begin

text \<open>
  \<open>seb/reasoning/src/streaming.rs\<close>: Mermaid diagrams, timelines with their ASCII rendering, and the
  stream manager, whose three locked fields are an append-only log of subscriptions (\<open>append_log\<close>), a
  buffer of events by partition (\<open>indexed_log\<close>) and a store of traces (\<open>keyed_store\<close>). The iteration
  orders of the hash maps are arguments. A method that takes two locks reads two states: another task
  may run in between.
\<close>

section \<open>Sequence diagrams\<close>

record mermaid_diagram =
  diagram_title :: string
  actors :: "string list"
  interactions :: "string list"

definition diagram_new :: "string \<Rightarrow> mermaid_diagram" where
  "diagram_new title = \<lparr>diagram_title = title, actors = [], interactions = []\<rparr>"

definition add_actor :: "string \<Rightarrow> mermaid_diagram \<Rightarrow> mermaid_diagram" where
  "add_actor a d = (if a \<in> set (actors d) then d else d\<lparr>actors := actors d @ [a]\<rparr>)"

definition add_interaction ::
    "string \<Rightarrow> string \<Rightarrow> string \<Rightarrow> mermaid_diagram \<Rightarrow> mermaid_diagram" where
  "add_interaction src dst label d =
     d\<lparr>interactions := interactions d @ [src @ ''->>'' @ dst @ '':'' @ label]\<rparr>"

definition diagram_render :: "mermaid_diagram \<Rightarrow> string" where
  "diagram_render d =
     (''sequenceDiagram'' @ [newline] @ ''    title '' @ diagram_title d @ [newline])
     @ concat (map (\<lambda>a. ''    participant '' @ a @ [newline]) (actors d))
     @ [newline]
     @ concat (map (\<lambda>i. ''    '' @ i @ [newline]) (interactions d))"

definition generate_sequence_diagram :: "reasoning_trace list \<Rightarrow> mermaid_diagram" where
  "generate_sequence_diagram traces =
     (let d0 = fold (\<lambda>t. add_actor (agent_id t)) traces (diagram_new ''Multi-Agent Reasoning'')
      in fold (\<lambda>(i, t) d.
           if i > 0
           then (let prev = traces ! (i - 1)
                 in add_interaction (agent_id prev) (agent_id t)
                      (''reasoning('' @ competency t @ '')'') d)
           else d) (enumerate 0 traces) d0)"

section \<open>Timelines\<close>

record timeline_entry =
  entry_index :: nat
  entry_timestamp :: timestamp
  entry_description :: string
  entry_duration_ms :: u64

record trace_timeline =
  timeline_id :: string
  timeline_entries :: "timeline_entry list"

fun timeline_from ::
    "extern \<Rightarrow> timestamp \<Rightarrow> (nat \<times> traced_step) list \<Rightarrow> timeline_entry list res" where
  "timeline_from X prev_time [] = Inr []"
| "timeline_from X prev_time ((i, s) # rest) =
     (let d = word_of_int (max (ms_between X (step_timestamp s) prev_time) 0)
      in res_bind (description (step_payload s)) (\<lambda>descr.
         res_bind (timeline_from X (step_timestamp s) rest) (\<lambda>es.
           Inr (\<lparr>entry_index = i, entry_timestamp = step_timestamp s, entry_description = descr,
                 entry_duration_ms = d\<rparr> # es))))"

definition from_trace :: "extern \<Rightarrow> reasoning_trace \<Rightarrow> trace_timeline res" where
  "from_trace X t =
     res_bind (timeline_from X (created_at t) (enumerate 0 (steps t))) (\<lambda>es.
       Inr \<lparr>timeline_id = trace_id t, timeline_entries = es\<rparr>)"

text \<open>\<open>max().unwrap_or(1)\<close>, and the casts of the width of a bar.\<close>

fun max_duration :: "u64 list \<Rightarrow> u64" where
  "max_duration [] = 1"
| "max_duration (d # ds) = fold max ds d"

definition fl_of_u64 :: "u64 \<Rightarrow> fl" where
  "fl_of_u64 w = fl_of_rat binary64 (of_nat (unat w))"

definition bar_width :: "u64 \<Rightarrow> u64 \<Rightarrow> nat" where
  "bar_width mx d =
     (if mx > 0
      then fl_to_usize (fl_mul binary64 (fl_div binary64 (fl_of_u64 d) (fl_of_u64 mx)) (Fin False 40))
      else 1)"

text \<open>The characters \<open>U+2500\<close> and \<open>U+2588\<close>, in UTF-8.\<close>

definition rule_char :: string where
  "rule_char = [CHR 0xE2, CHR 0x94, CHR 0x80]"

definition block_char :: string where
  "block_char = [CHR 0xE2, CHR 0x96, CHR 0x88]"

definition entry_line :: "u64 \<Rightarrow> timeline_entry \<Rightarrow> string" where
  "entry_line mx e =
     ''['' @ pad_zero 2 (show_nat (entry_index e)) @ ''] ''
     @ pad_right 50 (entry_description e) @ '' ''
     @ str_repeat block_char (bar_width mx (entry_duration_ms e)) @ '' ms ''
     @ show_nat (unat (entry_duration_ms e)) @ ''ms'' @ [newline]"

definition render_ascii :: "trace_timeline \<Rightarrow> string res" where
  "render_ascii v =
     res_bind (if length (timeline_id v) \<ge> 16 then slice_to 16 (timeline_id v)
               else Inr (timeline_id v)) (\<lambda>short.
       let mx = max_duration (map entry_duration_ms (timeline_entries v))
       in Inr (''Trace: '' @ short @ [newline] @ str_repeat rule_char 29 @ [newline]
               @ concat (map (entry_line mx) (timeline_entries v))))"

section \<open>The stream manager\<close>

datatype streaming_mode = Live | Replay | Summary

record reasoning_subscription =
  sub_partition :: string
  sub_mode :: streaming_mode
  sub_agent_id :: "string option"
  sub_created_at :: timestamp

record stream_manager =
  subscriptions :: "reasoning_subscription list"
  event_buffer :: "(string, a2a_event list) fmap"
  stored_traces :: "(string, reasoning_trace) fmap"

definition manager_new :: stream_manager where
  "manager_new = \<lparr>subscriptions = [], event_buffer = fmempty, stored_traces = fmempty\<rparr>"

definition new_subscription :: "timestamp \<Rightarrow> string \<Rightarrow> reasoning_subscription" where
  "new_subscription now path =
     \<lparr>sub_partition = path, sub_mode = Live,
      sub_agent_id =
        (case partition_from_path path of Some (AgentTraces i) \<Rightarrow> Some i | _ \<Rightarrow> None),
      sub_created_at = now\<rparr>"

definition push_subscription :: "reasoning_subscription \<Rightarrow> stream_manager \<Rightarrow> stream_manager" where
  "push_subscription s m = m\<lparr>subscriptions := subscriptions m @ [s]\<rparr>"

definition subscribe_live ::
    "timestamp \<Rightarrow> string \<Rightarrow> stream_manager \<Rightarrow> reasoning_subscription \<times> stream_manager" where
  "subscribe_live now path m =
     (let s = new_subscription now path in (s, push_subscription s m))"

definition emit_event :: "a2a_event \<Rightarrow> stream_manager \<Rightarrow> stream_manager" where
  "emit_event e m = m\<lparr>event_buffer := mm_push (event_partition e) e (event_buffer m)\<rparr>"

definition store_trace :: "reasoning_trace \<Rightarrow> stream_manager \<Rightarrow> stream_manager" where
  "store_trace t m = m\<lparr>stored_traces := fmupd (trace_id t) t (stored_traces m)\<rparr>"

definition get_partition_events :: "stream_manager \<Rightarrow> string \<Rightarrow> a2a_event list" where
  "get_partition_events m p = mm_get (event_buffer m) p"

definition get_traces :: "string list \<Rightarrow> stream_manager \<Rightarrow> reasoning_trace list" where
  "get_traces ord m = hm_values ord (stored_traces m)"

definition get_trace :: "stream_manager \<Rightarrow> string \<Rightarrow> reasoning_trace option" where
  "get_trace m i = fmlookup (stored_traces m) i"

definition get_timeline :: "extern \<Rightarrow> stream_manager \<Rightarrow> string \<Rightarrow> trace_timeline option res" where
  "get_timeline X m i =
     (case get_trace m i of None \<Rightarrow> Inr None
      | Some t \<Rightarrow> res_bind (from_trace X t) (\<lambda>v. Inr (Some v)))"

definition get_subscriptions :: "stream_manager \<Rightarrow> reasoning_subscription list" where
  "get_subscriptions m = subscriptions m"

text \<open>\<open>by_ord\<close> is the order in which the grouping by competency is consumed.\<close>

definition by_competency :: "reasoning_trace list \<Rightarrow> (string, reasoning_trace list) fmap" where
  "by_competency ts = fold (\<lambda>t. mm_push (competency t) t) ts fmempty"

definition generate_diagrams ::
    "string list \<Rightarrow> string list \<Rightarrow> stream_manager \<Rightarrow> mermaid_diagram list" where
  "generate_diagrams ord by_ord m =
     map generate_sequence_diagram (hm_values by_ord (by_competency (get_traces ord m)))"

text \<open>
  \<open>get_summary\<close> reads the traces in the state \<open>m\<close> and the buffer in the state \<open>m'\<close>; \<open>comps\<close> is the
  order of the set of competencies.
\<close>

definition get_summary ::
    "string list \<Rightarrow> string list \<Rightarrow> string list \<Rightarrow> stream_manager \<Rightarrow> stream_manager \<Rightarrow>
     (string, json) fmap" where
  "get_summary ord buf_ord comps m m' =
     (let traces = get_traces ord m; buffer = event_buffer m'
      in fmupd ''competencies'' (jstrs comps)
        (fmupd ''unique_agents'' (JInt (int (length (remdups (map agent_id traces)))))
        (fmupd ''total_steps'' (JInt (int (sum_list (map (\<lambda>t. length (steps t)) traces))))
        (fmupd ''total_events'' (JInt (int (sum_list (map length (hm_values buf_ord buffer)))))
        (fmupd ''total_traces'' (JInt (int (length traces))) fmempty)))))"


section \<open>The manager as logs and a store\<close>

interpretation subscription_log: append_log push_subscription get_subscriptions
  by unfold_locales (simp add: push_subscription_def get_subscriptions_def)

interpretation event_index: indexed_log emit_event get_partition_events event_partition "\<lambda>e. e"
  by unfold_locales (simp add: emit_event_def get_partition_events_def)

interpretation trace_store: keyed_store store_trace get_trace trace_id
  by unfold_locales (simp add: store_trace_def get_trace_def)

datatype stream_op = Subscribe timestamp string | Emit a2a_event | Store reasoning_trace

fun apply_stream_op :: "stream_op \<Rightarrow> stream_manager \<Rightarrow> stream_manager" where
  "apply_stream_op (Subscribe now path) m = snd (subscribe_live now path m)"
| "apply_stream_op (Emit e) m = emit_event e m"
| "apply_stream_op (Store t) m = store_trace t m"

fun op_events :: "stream_op \<Rightarrow> a2a_event list" where
  "op_events (Emit e) = [e]"
| "op_events _ = []"

fun op_traces :: "stream_op \<Rightarrow> reasoning_trace list" where
  "op_traces (Store t) = [t]"
| "op_traces _ = []"

fun op_subscriptions :: "stream_op \<Rightarrow> reasoning_subscription list" where
  "op_subscriptions (Subscribe now path) = [new_subscription now path]"
| "op_subscriptions _ = []"

abbreviation run_stream :: "stream_op list \<Rightarrow> stream_manager \<Rightarrow> stream_manager" where
  "run_stream ops m \<equiv> fold apply_stream_op ops m"

text \<open>The three fields are independent: a run is a run on each of them.\<close>

lemma run_stream_fields:
  "subscriptions (run_stream ops m) =
     subscriptions (fold push_subscription (concat (map op_subscriptions ops)) m)"
  "event_buffer (run_stream ops m) =
     event_buffer (fold emit_event (concat (map op_events ops)) m)"
  "stored_traces (run_stream ops m) =
     stored_traces (fold store_trace (concat (map op_traces ops)) m)"
proof -
  have sub: "subscriptions (fold push_subscription ss m) = subscriptions m @ ss" for ss m
    using subscription_log.entries_fold [of ss m] by (simp add: get_subscriptions_def)
  have buf: "event_buffer (fold emit_event es m) = fold (\<lambda>e. mm_push (event_partition e) e) es (event_buffer m)" for es m
    by (induction es arbitrary: m) (simp_all add: emit_event_def)
  have str: "stored_traces (fold store_trace ts m) = fold (\<lambda>t. fmupd (trace_id t) t) ts (stored_traces m)" for ts m
    by (induction ts arbitrary: m) (simp_all add: store_trace_def)
  show "subscriptions (run_stream ops m) =
      subscriptions (fold push_subscription (concat (map op_subscriptions ops)) m)"
    unfolding sub
  proof (induction ops arbitrary: m)
    case (Cons op ops)
    then show ?case
      by (cases op) (simp_all add: subscribe_live_def Let_def push_subscription_def emit_event_def store_trace_def)
  qed simp
  show "event_buffer (run_stream ops m) = event_buffer (fold emit_event (concat (map op_events ops)) m)"
    unfolding buf
  proof (induction ops arbitrary: m)
    case (Cons op ops)
    then show ?case
      by (cases op) (simp_all add: subscribe_live_def Let_def push_subscription_def emit_event_def store_trace_def)
  qed simp
  show "stored_traces (run_stream ops m) = stored_traces (fold store_trace (concat (map op_traces ops)) m)"
    unfolding str
  proof (induction ops arbitrary: m)
    case (Cons op ops)
    then show ?case
      by (cases op) (simp_all add: subscribe_live_def Let_def push_subscription_def emit_event_def store_trace_def)
  qed simp
qed

lemma get_partition_events_run:
  "get_partition_events (run_stream ops m) p =
     get_partition_events m p @ filter (\<lambda>e. event_partition e = p) (concat (map op_events ops))"
  using event_index.query_fold [of "concat (map op_events ops)" m p]
  by (simp add: get_partition_events_def run_stream_fields)

lemma get_trace_run:
  "get_trace (run_stream ops m) i =
     (case List.find (\<lambda>t. trace_id t = i) (rev (concat (map op_traces ops))) of
        None \<Rightarrow> get_trace m i | Some t \<Rightarrow> Some t)"
  using trace_store.get_fold [of "concat (map op_traces ops)" m i]
  by (simp add: get_trace_def run_stream_fields)

section \<open>Facts about bars\<close>

declare of_nat_unat [simp del]

lemma rnd_u64: "0 \<le> rnd binary64 (of_nat (unat (d :: u64)))" "rnd binary64 (of_nat (unat d)) \<le> 2 ^ 64"
proof -
  show "0 \<le> rnd binary64 (of_nat (unat d))" by (rule rnd_nonneg) (simp_all add: binary64_def)
  have "unat d < 2 ^ 64" using unsigned_less [of d, where ?'a = nat] by simp
  then have lt: "(of_nat (unat d) :: rat) < 2 ^ 64"
    by (metis of_nat_less_iff of_nat_numeral of_nat_power)
  show "rnd binary64 (of_nat (unat d)) \<le> 2 ^ 64"
  proof (cases "d = 0")
    case False
    then have "0 < (of_nat (unat d) :: rat)" by (simp add: unat_gt_0)
    moreover from this lt have "ilog2 (of_nat (unat d)) < 64" by (intro ilog2_less) simp_all
    ultimately have "ulp_exp binary64 (of_nat (unat d)) \<le> 64"
      by (simp add: ulp_exp_def binary64_def)
    with lt \<open>0 < (of_nat (unat d) :: rat)\<close>
    have "rnd binary64 (of_nat (unat d)) \<le> of_int 1 * 2 powi 64" by (intro rnd_le) simp_all
    then show ?thesis by simp
  qed simp
qed

lemma fl_of_u64_eq: "fl_of_u64 d = Fin False (rnd binary64 (of_nat (unat d)))"
proof -
  have "(2 :: rat) ^ 64 < 2 powi 1024" by simp
  with rnd_u64(2) [of d] have "\<not> 2 powi (fl_emax binary64 + 1) \<le> rnd binary64 (of_nat (unat d))"
    by (simp add: binary64_def)
  then show ?thesis by (simp add: fl_of_u64_def fl_of_rat_def fl_round_mag_def)
qed

lemma rnd_u64_pos: "0 < d \<Longrightarrow> 1 \<le> rnd binary64 (of_nat (unat (d :: u64)))"
proof -
  assume "0 < d"
  then have "1 \<le> unat d" by (metis One_nat_def Suc_leI unat_gt_0 word_gt_0)
  then have "(1 :: rat) \<le> of_nat (unat d)" by (metis of_nat_1 of_nat_le_iff)
  then have "rnd binary64 1 \<le> rnd binary64 (of_nat (unat d))"
    by (intro rnd_mono) (simp_all add: binary64_def)
  moreover have "rnd binary64 (of_nat 1) = of_nat 1"
    by (rule rnd_of_nat [OF regular_formats(2)]) (simp add: binary64_def)
  ultimately show ?thesis by simp
qed

lemma bar_width_eq:
  assumes "0 < mx" and "d \<le> mx"
  shows "bar_width mx d = nat \<lfloor>rnd binary64 (rnd binary64
      (rnd binary64 (of_nat (unat d)) / rnd binary64 (of_nat (unat mx))) * 40)\<rfloor>"
    and "bar_width mx d \<le> 40"
proof -
  let ?a = "rnd binary64 (of_nat (unat d))" and ?b = "rnd binary64 (of_nat (unat mx))"
  have b: "1 \<le> ?b" using assms(1) by (rule rnd_u64_pos)
  have "(of_nat (unat d) :: rat) \<le> of_nat (unat mx)"
    using assms(2) by (simp add: word_le_nat_alt)
  then have ab: "?a \<le> ?b" by (intro rnd_mono) (simp_all add: binary64_def)
  have q: "0 \<le> ?a / ?b" "?a / ?b \<le> of_nat 1" using rnd_u64(1) [of d] b ab by simp_all
  have one: "(1 :: nat) < 2 ^ fl_prec binary64" and forty: "(40 :: nat) < 2 ^ fl_prec binary64"
    by (simp_all add: binary64_def)
  note r = fl_round_mag_le [OF regular_formats(2) one q]
  have m: "0 \<le> rnd binary64 (?a / ?b) * 40" "rnd binary64 (?a / ?b) * 40 \<le> of_nat 40"
    using r(2,3) by simp_all
  note s = fl_round_mag_le [OF regular_formats(2) forty m]
  let ?w = "rnd binary64 (rnd binary64 (?a / ?b) * 40)"
  have le: "nat \<lfloor>?w\<rfloor> \<le> 40" using s(3) by (simp add: nat_le_iff floor_le_iff)
  then show w: "bar_width mx d = nat \<lfloor>?w\<rfloor>"
    using assms b by (simp add: bar_width_def fl_of_u64_eq r(1) s(1) usize_max_def)
  with le show "bar_width mx d \<le> 40" by simp
qed

lemma bar_width_mono: "d \<le> e \<Longrightarrow> e \<le> mx \<Longrightarrow> bar_width mx d \<le> bar_width mx e"
proof (cases "0 < mx")
  case True
  assume de: "d \<le> e" "e \<le> mx"
  let ?r = "\<lambda>d. rnd binary64 (of_nat (unat (d :: u64)))"
  have p: "0 < fl_prec binary64" by (simp add: binary64_def)
  have b: "1 \<le> ?r mx" using True by (rule rnd_u64_pos)
  have "(of_nat (unat d) :: rat) \<le> of_nat (unat e)" using de(1) by (simp add: word_le_nat_alt)
  then have "?r d \<le> ?r e" by (intro rnd_mono p) simp_all
  then have "?r d / ?r mx \<le> ?r e / ?r mx" using b by (intro divide_right_mono) simp_all
  moreover have "0 \<le> ?r d / ?r mx" using b rnd_u64(1) [of d] by simp
  ultimately have "rnd binary64 (?r d / ?r mx) * 40 \<le> rnd binary64 (?r e / ?r mx) * 40"
    "0 \<le> rnd binary64 (?r d / ?r mx) * 40" using p by (simp_all add: rnd_mono rnd_nonneg)
  then have "rnd binary64 (rnd binary64 (?r d / ?r mx) * 40) \<le> rnd binary64 (rnd binary64 (?r e / ?r mx) * 40)"
    by (intro rnd_mono p)
  with True de show ?thesis by (simp add: bar_width_eq nat_mono floor_mono)
next
  case False
  then show ?thesis by (simp add: bar_width_def)
qed

lemma bar_width_full: "0 < mx \<Longrightarrow> bar_width mx mx = 40"
proof -
  assume "0 < mx"
  moreover from this have "rnd binary64 (of_nat (unat mx)) \<noteq> 0" using rnd_u64_pos [of mx] by auto
  moreover have "rnd binary64 (of_nat 1) = of_nat 1" "rnd binary64 (of_nat 40) = of_nat 40"
    by (rule rnd_of_nat [OF regular_formats(2)], simp add: binary64_def)+
  ultimately show ?thesis by (simp add: bar_width_eq)
qed

declare of_nat_unat [simp]

lemma fold_max_eq: "fold max ds (d :: u64) = Max (set (d # ds))"
  by (simp flip: Max.set_eq_fold)

lemma max_duration_eq: "ds \<noteq> [] \<Longrightarrow> max_duration ds = Max (set ds)"
  by (cases ds) (simp_all only: max_duration.simps fold_max_eq)

lemma max_duration_ge: "d \<in> set ds \<Longrightarrow> d \<le> max_duration ds"
  by (cases "ds = []") (simp_all add: max_duration_eq)

lemma max_duration_in: "ds \<noteq> [] \<Longrightarrow> max_duration ds \<in> set ds"
  by (simp add: max_duration_eq)

section \<open>Facts about timelines\<close>

text \<open>What the entry of a step recorded after the time \<open>p\<close> holds.\<close>

definition entry_of :: "extern \<Rightarrow> timestamp \<Rightarrow> nat \<Rightarrow> traced_step \<Rightarrow> timeline_entry \<Rightarrow> bool" where
  "entry_of X p i s e \<longleftrightarrow>
     entry_index e = i \<and> entry_timestamp e = step_timestamp s \<and>
     description (step_payload s) = Inr (entry_description e) \<and>
     entry_duration_ms e = word_of_int (max (ms_between X (step_timestamp s) p) 0)"

lemma timeline_from_nth:
  assumes "timeline_from X p (enumerate n ss) = Inr es"
  shows "length es = length ss" and "\<And>i. i < length ss \<Longrightarrow>
    entry_of X ((p # map step_timestamp ss) ! i) (n + i) (ss ! i) (es ! i)"
proof -
  have "length es = length ss \<and> (\<forall>i < length ss.
      entry_of X ((p # map step_timestamp ss) ! i) (n + i) (ss ! i) (es ! i))"
    using assms
  proof (induction ss arbitrary: p n es)
    case (Cons s ss)
    from Cons.prems obtain d es' where d: "description (step_payload s) = Inr d"
      and es': "timeline_from X (step_timestamp s) (enumerate (Suc n) ss) = Inr es'"
      and es: "es = \<lparr>entry_index = n, entry_timestamp = step_timestamp s, entry_description = d,
         entry_duration_ms = word_of_int (max (ms_between X (step_timestamp s) p) 0)\<rparr> # es'"
      by (auto simp: Let_def res_bind_Inr_iff)
    from Cons.IH [OF es'] d show ?case
      by (auto simp: es entry_of_def nth_Cons split: nat.splits)
  qed simp
  then show "length es = length ss" and "\<And>i. i < length ss \<Longrightarrow>
    entry_of X ((p # map step_timestamp ss) ! i) (n + i) (ss ! i) (es ! i)" by auto
qed

lemma timeline_from_defined:
  "(\<exists>es. timeline_from X p (enumerate n ss) = Inr es) \<longleftrightarrow> (\<forall>s \<in> set ss. describable (step_payload s))"
proof (induction ss arbitrary: p n)
  case (Cons s ss)
  show ?case
    using Cons.IH [of "step_timestamp s" "Suc n"] description_defined [of "step_payload s"]
    by (auto simp: Let_def res_bind_Inr_iff)
qed simp

lemma max_ms: "ms_truncates X \<Longrightarrow> p \<le> t \<Longrightarrow> max (ms_between X t p) 0 = (t - p) div 1000000"
  by (simp add: ms_truncates_def pos_imp_zdiv_nonneg_iff)

lemma unat_word_of_int_u64: "0 \<le> i \<Longrightarrow> i < 2 ^ 64 \<Longrightarrow> int (unat (word_of_int i :: u64)) = i"
  by (simp add: uint_word_of_int)

lemma timeline_from_sum:
  assumes X: "ms_truncates X"
  shows "timeline_from X p (enumerate n ss) = Inr es \<Longrightarrow> sorted (p # map step_timestamp ss) \<Longrightarrow>
    (last (p # map step_timestamp ss) - p) div 1000000 < 2 ^ 64 \<Longrightarrow>
    (\<Sum>e\<leftarrow>es. int (unat (entry_duration_ms e))) \<le> (last (p # map step_timestamp ss) - p) div 1000000 \<and>
    (last (p # map step_timestamp ss) - p) div 1000000 \<le>
      (\<Sum>e\<leftarrow>es. int (unat (entry_duration_ms e))) + int (length es)"
proof (induction ss arbitrary: p n es)
  case (Cons s ss)
  let ?t = "step_timestamp s"
  let ?l = "last (?t # map step_timestamp ss)"
  from Cons.prems(1) obtain es' d where es': "timeline_from X ?t (enumerate (Suc n) ss) = Inr es'"
    and es: "es = \<lparr>entry_index = n, entry_timestamp = ?t, entry_description = d,
        entry_duration_ms = word_of_int (max (ms_between X ?t p) 0)\<rparr> # es'"
    by (auto simp: Let_def res_bind_Inr_iff)
  have pt: "p \<le> ?t" and sorted: "sorted (?t # map step_timestamp ss)" using Cons.prems(2) by auto
  have "?l \<in> set (?t # map step_timestamp ss)" by (rule last_in_set) simp
  with sorted have tl: "?t \<le> ?l" by auto
  have bound: "(?l - p) div 1000000 < 2 ^ 64" using Cons.prems(3) by simp
  have "(?l - ?t) div 1000000 \<le> (?l - p) div 1000000" using pt by (intro zdiv_mono1) simp_all
  with bound have "(?l - ?t) div 1000000 < 2 ^ 64" by linarith
  note IH = Cons.IH [OF es' sorted this]
  have "(?t - p) div 1000000 \<le> (?l - p) div 1000000" using tl by (intro zdiv_mono1) simp_all
  with bound have "(?t - p) div 1000000 < 2 ^ 64" by linarith
  moreover have "0 \<le> (?t - p) div 1000000" using pt by (simp add: pos_imp_zdiv_nonneg_iff)
  ultimately have d: "int (unat (entry_duration_ms (hd es))) = (?t - p) div 1000000"
    using unat_word_of_int_u64 [of "(?t - p) div 1000000"] by (simp only: es list.sel timeline_entry.select_convs max_ms [OF X pt])
  have "(?t - p) div 1000000 + (?l - ?t) div 1000000 \<le> (?l - p) div 1000000"
    "(?l - p) div 1000000 \<le> (?t - p) div 1000000 + (?l - ?t) div 1000000 + 1"
    by linarith+
  with IH d show ?case by (auto simp: es)
qed simp

section \<open>Facts about diagrams\<close>

text \<open>The first occurrence of every agent, in order.\<close>

definition first_occurrences :: "string list \<Rightarrow> string list" where
  "first_occurrences xs = rev (remdups (rev xs))"

lemma actors_fold:
  "actors (fold (\<lambda>t. add_actor (f t)) ts d) =
     actors d @ first_occurrences (filter (\<lambda>a. a \<notin> set (actors d)) (map f ts))"
proof (induction ts rule: rev_induct)
  case (snoc t ts)
  then show ?case by (auto simp: add_actor_def first_occurrences_def)
qed (simp add: first_occurrences_def)

lemma add_actor_fields [simp]:
  "diagram_title (add_actor a d) = diagram_title d" "interactions (add_actor a d) = interactions d"
  by (simp_all add: add_actor_def)

lemma fold_add_actor_fields [simp]:
  "diagram_title (fold (\<lambda>t. add_actor (f t)) ts d) = diagram_title d"
  "interactions (fold (\<lambda>t. add_actor (f t)) ts d) = interactions d"
  by (induction ts arbitrary: d) simp_all

definition interaction_text :: "reasoning_trace \<Rightarrow> reasoning_trace \<Rightarrow> string" where
  "interaction_text p t = agent_id p @ ''->>'' @ agent_id t @ '':'' @ ''reasoning('' @ competency t @ '')''"

lemma interactions_fold:
  "fold (\<lambda>(i, t) d. if i > 0 then (let prev = traces ! (i - 1)
             in add_interaction (agent_id prev) (agent_id t) (''reasoning('' @ competency t @ '')'') d)
           else d) its d =
    d\<lparr>interactions := interactions d @
        map (\<lambda>(i, t). interaction_text (traces ! (i - 1)) t) (filter (\<lambda>(i, t). i > 0) its)\<rparr>"
  by (induction its arbitrary: d)
    (auto simp: add_interaction_def interaction_text_def Let_def split_beta)

lemma enumerate_pairs:
  "map (\<lambda>(i, t). f (ts ! (i - Suc 0)) t) (filter (\<lambda>(i, t). i > 0) (enumerate 0 ts)) =
     map (\<lambda>(p, t). f p t) (zip ts (List.tl ts))"
proof (cases ts)
  case (Cons t ts')
  have "filter (\<lambda>(i, t). i > 0) (enumerate 0 ts) = enumerate 1 ts'"
    by (auto simp: Cons intro!: filter_True dest!: in_set_enumerate_eq [THEN iffD1])
  moreover have "map (\<lambda>(i, t). f (ts ! (i - Suc 0)) t) (enumerate 1 ts') = map (\<lambda>(p, t). f p t) (zip ts ts')"
    by (rule nth_equalityI) (simp_all add: Cons nth_enumerate_eq)
  ultimately show ?thesis by (simp add: Cons)
qed simp

lemma generate_sequence_diagram_eq:
  "generate_sequence_diagram ts =
     \<lparr>diagram_title = ''Multi-Agent Reasoning'',
      actors = first_occurrences (map agent_id ts),
      interactions = map (\<lambda>(p, t). interaction_text p t) (zip ts (List.tl ts))\<rparr>"
  unfolding generate_sequence_diagram_def Let_def [of "fold f xs d" for f xs d] interactions_fold
  by (intro mermaid_diagram.equality)
    (simp_all add: actors_fold diagram_new_def enumerate_pairs [where f = interaction_text])

lemma lines_concat:
  assumes "\<And>l. l \<in> set ls \<Longrightarrow> newline \<notin> set l \<and> strip_cr l = l"
  shows "lines (concat (map (\<lambda>l. l @ [newline]) ls) @ r) = ls @ lines r"
  using assms by (induction ls) (simp_all add: lines_cons)

section \<open>Facts about the summary and the grouping\<close>

lemma length_by_key:
  assumes "distinct ks" and "key ` set es \<subseteq> set ks"
  shows "(\<Sum>k\<leftarrow>ks. length (filter (\<lambda>e. key e = k) es)) = length es"
  using assms(2)
proof (induction es)
  case (Cons e es)
  have "(\<Sum>k\<leftarrow>ks. length (filter (\<lambda>x. key x = k) (e # es))) =
      (\<Sum>k\<leftarrow>ks. (if k = key e then 1 else 0) + length (filter (\<lambda>x. key x = k) es))"
    by (intro arg_cong [of _ _ sum_list] map_cong) auto
  also have "\<dots> = (\<Sum>k\<leftarrow>ks. if k = key e then 1 else 0) + length es"
    using Cons by (simp add: sum_list_addf)
  also have "(\<Sum>k\<leftarrow>ks. if k = key e then 1 else (0 :: nat)) = 1"
    using Cons.prems assms(1)
    by (simp add: sum_list_distinct_conv_sum_set)
  finally show ?case by simp
qed (simp add: sum_list_0)

lemma stored_traces_run:
  "stored_traces (run_stream ops manager_new) =
     fold (\<lambda>t. fmupd (trace_id t) t) (concat (map op_traces ops)) fmempty"
proof -
  have "stored_traces (fold store_trace ts m) = fold (\<lambda>t. fmupd (trace_id t) t) ts (stored_traces m)" for ts m
    by (induction ts arbitrary: m) (simp_all add: store_trace_def)
  then show ?thesis by (simp add: run_stream_fields manager_new_def)
qed

lemma event_buffer_run:
  "event_buffer (run_stream ops manager_new) =
     fold (\<lambda>e. mm_push (event_partition e) e) (concat (map op_events ops)) fmempty"
proof -
  have "event_buffer (fold emit_event es m) = fold (\<lambda>e. mm_push (event_partition e) e) es (event_buffer m)" for es m
    by (induction es arbitrary: m) (simp_all add: emit_event_def)
  then show ?thesis by (simp add: run_stream_fields manager_new_def)
qed

lemma fmdom_fold_fmupd:
  "fset (fmdom (fold (\<lambda>t. fmupd (f t) t) ts m)) = fset (fmdom m) \<union> f ` set ts"
  by (induction ts arbitrary: m) auto

lemma buffered_events:
  assumes "iter_order buf_ord (event_buffer (run_stream ops manager_new))"
  shows "sum_list (map length (hm_values buf_ord (event_buffer (run_stream ops manager_new)))) =
    length (concat (map op_events ops))"
proof -
  let ?es = "concat (map op_events ops)" and ?B = "event_buffer (run_stream ops manager_new)"
  have B: "?B = fold (\<lambda>e. mm_push (event_partition e) e) ?es fmempty" by (rule event_buffer_run)
  have dom: "set buf_ord = event_partition ` set ?es" and ord: "distinct buf_ord"
    using assms fmdom_fold_push [of event_partition "\<lambda>e. e" ?es fmempty] by (auto simp: iter_order_def B)
  have get: "mm_get ?B k = filter (\<lambda>e. event_partition e = k) ?es" for k
    using mm_get_fold_push [of event_partition "\<lambda>e. e" ?es fmempty k] by (simp add: B)
  have "set buf_ord \<subseteq> fset (fmdom ?B)" using assms by (simp add: iter_order_def)
  then have "hm_values buf_ord ?B = map (\<lambda>k. the (fmlookup ?B k)) buf_ord"
    by (rule hm_values_eq_map)
  also have "\<dots> = map (mm_get ?B) buf_ord"
    using assms by (auto simp: iter_order_def mm_get_def fmlookup_dom_iff)
  finally show ?thesis
    using length_by_key [OF ord, of event_partition ?es] dom by (simp add: get comp_def)
qed

lemma by_competency_values:
  assumes "iter_order by_ord (by_competency ts)"
  shows "hm_values by_ord (by_competency ts) = map (\<lambda>c. filter (\<lambda>t. competency t = c) ts) by_ord"
    and "set by_ord = competency ` set ts"
proof -
  show dom: "set by_ord = competency ` set ts"
    using assms fmdom_fold_push [of competency "\<lambda>t. t" ts fmempty]
    by (simp add: iter_order_def by_competency_def)
  have get: "mm_get (by_competency ts) c = filter (\<lambda>t. competency t = c) ts" for c
    using mm_get_fold_push [of competency "\<lambda>t. t" ts fmempty c] by (simp add: by_competency_def)
  have "the (fmlookup (by_competency ts) c) = mm_get (by_competency ts) c" if "c \<in> set by_ord" for c
    using that assms by (auto simp: iter_order_def mm_get_def fmlookup_dom_iff)
  then show "hm_values by_ord (by_competency ts) = map (\<lambda>c. filter (\<lambda>t. competency t = c) ts) by_ord"
    using assms by (subst hm_values_eq_map) (simp_all add: iter_order_def get)
qed

section \<open>Properties\<close>

text \<open>
  C22: what the manager answers after any sequence of subscriptions, emitted events and stored traces:
  the events of a partition are the emitted events of that partition in order, a trace is the one
  stored last under its identifier, and every subscription is kept in order, carrying the name of an
  agent exactly when its path is the path of that agent's own partition.
\<close>

theorem stream_manager_views:
  "get_partition_events (run_stream ops manager_new) p =
     filter (\<lambda>e. event_partition e = p) (concat (map op_events ops)) \<and>
   get_trace (run_stream ops manager_new) i =
     List.find (\<lambda>t. trace_id t = i) (rev (concat (map op_traces ops))) \<and>
   get_subscriptions (run_stream ops manager_new) = concat (map op_subscriptions ops) \<and>
   (\<forall>s \<in> set (get_subscriptions (run_stream ops manager_new)).
      sub_agent_id s = Some a \<longleftrightarrow>
        proper_partition (AgentTraces a) \<and> sub_partition s = partition_path (AgentTraces a))"
proof -
  have subs: "get_subscriptions (run_stream ops manager_new) = concat (map op_subscriptions ops)"
    using subscription_log.entries_fold [of "concat (map op_subscriptions ops)" manager_new]
    by (simp add: get_subscriptions_def run_stream_fields manager_new_def)
  have new: "sub_agent_id (new_subscription now path) = Some a \<longleftrightarrow>
      proper_partition (AgentTraces a) \<and> path = partition_path (AgentTraces a)" for now path
    unfolding partition_codec.dec_Some_iff [symmetric]
    by (simp add: new_subscription_def split: option.splits partition.splits)
  have "sub_agent_id s = Some a \<longleftrightarrow>
      proper_partition (AgentTraces a) \<and> sub_partition s = partition_path (AgentTraces a)"
    if s: "s \<in> set (op_subscriptions op)" for s op
  proof (cases op)
    case (Subscribe now path)
    with s have "s = new_subscription now path" by simp
    then show ?thesis using new by (simp only: new_subscription_def reasoning_subscription.select_convs)
  qed (use s in simp_all)
  moreover have "get_partition_events (run_stream ops manager_new) p =
      filter (\<lambda>e. event_partition e = p) (concat (map op_events ops))"
    unfolding get_partition_events_run by (simp add: get_partition_events_def manager_new_def)
  moreover have "get_trace (run_stream ops manager_new) i =
      List.find (\<lambda>t. trace_id t = i) (rev (concat (map op_traces ops)))"
    unfolding get_trace_run by (simp add: get_trace_def manager_new_def split: option.splits)
  ultimately show ?thesis unfolding subs by (intro conjI ballI) auto
qed

theorem stream_manager_views_witness:
  "sub_agent_id (hd (get_subscriptions (run_stream [Subscribe 0 ''reasoning/a''] manager_new))) = Some ''a''"
proof -
  let ?m = "run_stream [Subscribe 0 ''reasoning/a''] manager_new"
  note views = stream_manager_views [of "[Subscribe 0 ''reasoning/a'']" "''reasoning/a''" "[]" "''a''"]
  have s: "get_subscriptions ?m = [new_subscription 0 ''reasoning/a'']" using views by simp
  have "\<forall>s \<in> set (get_subscriptions ?m). sub_agent_id s = Some ''a'' \<longleftrightarrow>
      proper_partition (AgentTraces ''a'') \<and> sub_partition s = partition_path (AgentTraces ''a'')"
    using views by blast
  then show ?thesis unfolding s by (simp add: new_subscription_def)
qed

text \<open>
  The summary counts what happened: with the traces read after \<open>ops\<close> and the buffer after further
  operations \<open>ops'\<close>, it reports the number of different identifiers under which traces were stored, the
  number of all events emitted up to the second reading, and the numbers of steps and of agents of the
  traces that \<open>get_traces\<close> lists.
\<close>

lemma summary_counts_run:
  assumes "iter_order ord (stored_traces (run_stream ops manager_new))"
    and "iter_order buf_ord (event_buffer (run_stream (ops @ ops') manager_new))"
  shows "fmlookup (get_summary ord buf_ord comps (run_stream ops manager_new)
            (run_stream (ops @ ops') manager_new)) k =
     (if k = ''total_traces'' then Some (JInt (int (card (trace_id ` set (concat (map op_traces ops))))))
      else if k = ''total_events'' then Some (JInt (int (length (concat (map op_events (ops @ ops'))))))
      else if k = ''total_steps'' then
        Some (JInt (int (\<Sum>t\<leftarrow>get_traces ord (run_stream ops manager_new). length (steps t))))
      else if k = ''unique_agents'' then
        Some (JInt (int (card (agent_id ` set (get_traces ord (run_stream ops manager_new))))))
      else if k = ''competencies'' then Some (jstrs comps) else None)"
proof -
  have "length (get_traces ord (run_stream ops manager_new)) = card (set ord)"
    using assms(1) length_hm_values [OF assms(1)]
    by (auto simp: get_traces_def hm_len_def iter_order_def fcard.rep_eq)
  also have "set ord = trace_id ` set (concat (map op_traces ops))"
    using assms(1) fmdom_fold_fmupd [of trace_id "concat (map op_traces ops)" fmempty]
    by (simp add: iter_order_def stored_traces_run)
  finally show ?thesis
    unfolding get_summary_def Let_def buffered_events [OF assms(2)]
    by (simp add: length_remdups_card_conv)
qed

definition demo_stream :: "stream_op list" where
  "demo_stream =
     [Store (demo_trace ''t1'' []), Emit (event_new 0 Query Queries), Store (demo_trace ''t2'' []),
      Emit (event_new 1 Query Queries), Store (demo_trace ''t1'' [])]"

lemmas demo_stream_simps =
  demo_stream_def manager_new_def store_trace_def emit_event_def mm_push_def event_new_def demo_trace_def

lemma summary_counts_run_witness:
  "fmlookup (get_summary [''t1'', ''t2''] [''reasoning/queries''] [''verify'']
       (run_stream demo_stream manager_new) (run_stream demo_stream manager_new)) ''total_traces'' =
     Some (JInt 2)"
proof -
  have 1: "iter_order [''t1'', ''t2''] (stored_traces (run_stream demo_stream manager_new))"
    by (auto simp: iter_order_def demo_stream_simps)
  have 2: "iter_order [''reasoning/queries''] (event_buffer (run_stream (demo_stream @ []) manager_new))"
    by (auto simp: iter_order_def demo_stream_simps)
  have "trace_id ` set (concat (map op_traces demo_stream)) = {''t1'', ''t2''}"
    by (auto simp: demo_stream_def demo_trace_def)
  then have "card (trace_id ` set (concat (map op_traces demo_stream))) = 2" by simp
  with summary_counts_run [OF 1 2, of "[''verify'']" "''total_traces''"] show ?thesis by simp
qed

text \<open>
  C32: \<open>generate_diagrams\<close> gives one diagram per competency, drawn from exactly the stored traces with
  that competency: its participants are their agents, each once, in the order of first appearance, and
  its interactions are the pairs of consecutive traces.
\<close>

theorem diagrams_partition_traces:
  assumes "iter_order by_ord (by_competency (get_traces ord m))"
  shows "distinct by_ord \<and> set by_ord = competency ` set (get_traces ord m) \<and>
    generate_diagrams ord by_ord m =
      map (\<lambda>c. let ts = filter (\<lambda>t. competency t = c) (get_traces ord m)
               in \<lparr>diagram_title = ''Multi-Agent Reasoning'',
                   actors = first_occurrences (map agent_id ts),
                   interactions = map (\<lambda>(p, t). interaction_text p t) (zip ts (List.tl ts))\<rparr>) by_ord"
  using assms by_competency_values [OF assms]
  by (simp add: generate_diagrams_def generate_sequence_diagram_eq iter_order_def Let_def)

theorem diagrams_partition_traces_witness:
  "length (generate_diagrams [''t1'', ''t2''] [''verify''] (run_stream demo_stream manager_new)) = 1"
proof -
  have "iter_order [''verify''] (by_competency (get_traces [''t1'', ''t2''] (run_stream demo_stream manager_new)))"
    by (simp add: iter_order_def by_competency_def get_traces_def hm_values_def demo_stream_simps
        map_filter_simps trace_new_def)
  from diagrams_partition_traces [OF this] show ?thesis by simp
qed

text \<open>
  A diagram reads back line by line when no agent name or competency contains a line break: the
  rendering has the header, one line per participant, an empty line and one line per interaction.
\<close>

lemma diagram_render_lines:
  assumes "\<forall>t \<in> set ts. \<forall>c \<in> {newline, CHR 0x0D}. c \<notin> set (agent_id t) \<and> c \<notin> set (competency t)"
  shows "lines (diagram_render (generate_sequence_diagram ts)) =
    [''sequenceDiagram'', ''    title Multi-Agent Reasoning'']
    @ map (\<lambda>a. ''    participant '' @ a) (first_occurrences (map agent_id ts)) @ [[]]
    @ map (\<lambda>(p, t). ''    '' @ interaction_text p t) (zip ts (List.tl ts))"
proof -
  let ?as = "first_occurrences (map agent_id ts)"
  let ?is = "map (\<lambda>(p, t). interaction_text p t) (zip ts (List.tl ts))"
  let ?ls = "[''sequenceDiagram'', ''    title Multi-Agent Reasoning'']
      @ map (\<lambda>a. ''    participant '' @ a) ?as @ [[]] @ map (\<lambda>i. ''    '' @ i) ?is"
  have clean: "strip_cr l = l" if "CHR 0x0D \<notin> set l" for l
    using that unfolding strip_cr_def by (metis last_in_set)
  have a: "newline \<notin> set a \<and> CHR 0x0D \<notin> set a" if "a \<in> set ?as" for a
    using that assms by (auto simp: first_occurrences_def)
  have i: "newline \<notin> set i \<and> CHR 0x0D \<notin> set i" if "i \<in> set ?is" for i
  proof -
    from that obtain p t where pt: "(p, t) \<in> set (zip ts (List.tl ts))" and i: "i = interaction_text p t" by auto
    from pt have "p \<in> set ts" "t \<in> set ts"
      by (auto dest: set_zip_leftD set_zip_rightD intro: list.set_sel(2) [rotated])
    with assms show ?thesis by (simp add: i interaction_text_def newline_def)
  qed
  have "\<forall>a \<in> set ?as. newline \<notin> set a \<and> CHR 0x0D \<notin> set a"
    "\<forall>i \<in> set ?is. newline \<notin> set i \<and> CHR 0x0D \<notin> set i" using a i by blast+
  then have "\<forall>l \<in> set ?ls. newline \<notin> set l \<and> CHR 0x0D \<notin> set l"
    by (simp add: ball_Un newline_def)
  then have "newline \<notin> set l \<and> strip_cr l = l" if "l \<in> set ?ls" for l using that clean by blast
  then have "lines (concat (map (\<lambda>l. l @ [newline]) ?ls) @ []) = ?ls @ lines []"
    by (rule lines_concat)
  then show ?thesis
    by (simp add: diagram_render_def generate_sequence_diagram_eq comp_def split_beta)
qed

lemma diagram_render_lines_witness:
  "lines (diagram_render (generate_sequence_diagram [demo_trace ''t1'' [], demo_trace ''t2'' []])) =
     [''sequenceDiagram'', ''    title Multi-Agent Reasoning'', ''    participant agent'', [],
      ''    agent->>agent:reasoning(verify)'']"
proof -
  let ?ts = "[demo_trace ''t1'' [], demo_trace ''t2'' []]"
  have "\<forall>t \<in> set ?ts. \<forall>c \<in> {newline, CHR 0x0D}. c \<notin> set (agent_id t) \<and> c \<notin> set (competency t)"
    by (simp add: demo_trace_def trace_new_def newline_def)
  from diagram_render_lines [OF this] show ?thesis
    by (simp add: first_occurrences_def demo_trace_def trace_new_def interaction_text_def)
qed

text \<open>
  C30: a timeline is exact to a millisecond per step: for a trace whose times do not decrease and whose
  descriptions can be written, the timeline has one entry per step, in order and with its description,
  and the durations add up to at most the whole time and to at least that less one per step.
\<close>

theorem timeline_durations:
  assumes "ms_truncates X" and "\<forall>s \<in> set (steps t). describable (step_payload s)"
    and "sorted (created_at t # map step_timestamp (steps t))"
    and "(last (created_at t # map step_timestamp (steps t)) - created_at t) div 1000000 < 2 ^ 64"
  shows "\<exists>v. from_trace X t = Inr v \<and> length (timeline_entries v) = length (steps t) \<and>
    (\<forall>i < length (steps t).
       entry_of X ((created_at t # map step_timestamp (steps t)) ! i) i (steps t ! i) (timeline_entries v ! i)) \<and>
    (let total = (last (created_at t # map step_timestamp (steps t)) - created_at t) div 1000000;
         parts = (\<Sum>e\<leftarrow>timeline_entries v. int (unat (entry_duration_ms e)))
     in parts \<le> total \<and> total \<le> parts + int (length (steps t)))"
proof -
  obtain es where es: "timeline_from X (created_at t) (enumerate 0 (steps t)) = Inr es"
    using assms(2) timeline_from_defined by blast
  note nth = timeline_from_nth [OF es]
  note sums = timeline_from_sum [OF assms(1) es assms(3,4)]
  have "from_trace X t = Inr \<lparr>timeline_id = trace_id t, timeline_entries = es\<rparr>"
    by (simp add: from_trace_def es)
  moreover have "\<forall>i < length (steps t).
      entry_of X ((created_at t # map step_timestamp (steps t)) ! i) i (steps t ! i) (es ! i)"
    using nth(2) by simp
  ultimately show ?thesis using sums nth(1)
    by (intro exI [of _ "\<lparr>timeline_id = trace_id t, timeline_entries = es\<rparr>"])
      (simp only: Let_def trace_timeline.select_convs simp_thms)
qed

theorem timeline_durations_witness:
  "\<exists>v. from_trace demo_extern (add_step demo_extern 3000000 (Rebuttal ''c'' ''r'') (demo_trace ''t'' [])) = Inr v \<and>
     length (timeline_entries v) = 1"
proof -
  let ?t = "add_step demo_extern 3000000 (Rebuttal ''c'' ''r'') (demo_trace ''t'' [])"
  have "\<forall>s \<in> set (steps ?t). describable (step_payload s)"
    "sorted (created_at ?t # map step_timestamp (steps ?t))"
    "(last (created_at ?t # map step_timestamp (steps ?t)) - created_at ?t) div 1000000 < 2 ^ 64"
    by (simp_all add: add_step_def demo_trace_def trace_new_def)
  from timeline_durations [OF ms_truncates_demo this] show ?thesis
    by (auto simp: add_step_def demo_trace_def trace_new_def)
qed

text \<open>
  C31: the bars of a timeline are scaled: every bar has at most 40 blocks, a longer step never has a
  shorter bar, and each of the longest steps has all 40, in the binary64 arithmetic of the code; but when
  all durations are zero, every bar has one block.
\<close>

theorem timeline_bars_scaled:
  assumes "e \<in> set (timeline_entries v)" and "e' \<in> set (timeline_entries v)"
  shows "let mx = max_duration (map entry_duration_ms (timeline_entries v)) in
    bar_width mx (entry_duration_ms e) \<le> 40 \<and>
    (entry_duration_ms e \<le> entry_duration_ms e' \<longrightarrow>
       bar_width mx (entry_duration_ms e) \<le> bar_width mx (entry_duration_ms e')) \<and>
    ((\<forall>x \<in> set (timeline_entries v). entry_duration_ms x \<le> entry_duration_ms e) \<longrightarrow>
       bar_width mx (entry_duration_ms e) = (if entry_duration_ms e = 0 then 1 else 40))"
proof -
  let ?ds = "map entry_duration_ms (timeline_entries v)"
  have le: "entry_duration_ms x \<le> max_duration ?ds" if "x \<in> set (timeline_entries v)" for x
    using that by (intro max_duration_ge) simp
  have 1: "bar_width (max_duration ?ds) (entry_duration_ms e) \<le> 40"
    using bar_width_eq(2) [OF _ le [OF assms(1)]] by (cases "0 < max_duration ?ds") (auto simp: bar_width_def)
  have "max_duration ?ds \<in> set ?ds" by (rule max_duration_in) (use assms(1) in auto)
  then have "entry_duration_ms e = max_duration ?ds"
    if "\<forall>x \<in> set (timeline_entries v). entry_duration_ms x \<le> entry_duration_ms e"
    using that le [OF assms(1)] by (auto intro!: order_antisym)
  moreover have "bar_width m m = (if m = 0 then 1 else 40)" for m
    using bar_width_full [of m] by (cases "m = 0") (simp_all add: bar_width_def word_gt_0)
  ultimately show ?thesis using 1 bar_width_mono [OF _ le [OF assms(2)]] by (simp add: Let_def)
qed

definition demo_entry :: "nat \<Rightarrow> u64 \<Rightarrow> timeline_entry" where
  "demo_entry i d =
     \<lparr>entry_index = i, entry_timestamp = 0, entry_description = ''Rebuttal'', entry_duration_ms = d\<rparr>"

theorem timeline_bars_scaled_witness:
  "bar_width 20 10 \<le> bar_width 20 20 \<and> bar_width 20 20 = 40 \<and> bar_width 0 0 = 1"
proof -
  let ?v = "\<lparr>timeline_id = ''t'', timeline_entries = [demo_entry 0 10, demo_entry 1 20]\<rparr>"
    and ?z = "\<lparr>timeline_id = ''t'', timeline_entries = [demo_entry 0 0]\<rparr>"
  have v: "demo_entry 0 10 \<in> set (timeline_entries ?v)" "demo_entry 1 20 \<in> set (timeline_entries ?v)"
    and z: "demo_entry 0 0 \<in> set (timeline_entries ?z)"
    by simp_all
  from timeline_bars_scaled [OF v] timeline_bars_scaled [OF v(2) v(2)] timeline_bars_scaled [OF z z]
  show ?thesis by (simp add: Let_def demo_entry_def max_def)
qed

end
