(* ===== verification/Integration.thy ===== *)
theory Integration
  imports Streaming
begin

text \<open>
  \<open>seb/reasoning/src/integration.rs\<close>: the hooks of the kernel, the policy gate and the knowledge
  layer, and the functions for Erlang. Every reading of a clock is an argument. \<open>logging\<close> says whether
  \<open>tracing\<close> evaluates the arguments of an \<open>info!\<close>; an operation of the knowledge layer that panics there
  has already changed the shared state, so it returns its outcome together with the state.
\<close>

section \<open>The kernel\<close>

record l1_kernel =
  l1_handler :: a2a_handler

definition l1_new :: "string \<Rightarrow> l1_kernel" where
  "l1_new agent = \<lparr>l1_handler = handler_new agent\<rparr>"

definition offset_symbol :: "u64 \<Rightarrow> string" where
  "offset_symbol offset = ''offset_'' @ show_nat (unat offset)"

text \<open>
  \<open>t0\<close>, \<open>t1\<close> and \<open>t2\<close> are the times of the trace, the step and the event, \<open>sys\<close> the system clock in
  nanoseconds: \<open>duration_since\<close> fails before the epoch, and \<open>json!\<close> fails on an integer beyond
  64 bits.
\<close>

definition on_kernel_append ::
    "extern \<Rightarrow> timestamp \<Rightarrow> int \<Rightarrow> timestamp \<Rightarrow> timestamp \<Rightarrow> u64 \<Rightarrow> string \<Rightarrow> l1_kernel \<Rightarrow> l1_kernel res" where
  "on_kernel_append X t0 sys t1 t2 offset event_hash k =
     (let tr0 = trace_new t0 ''kernel_001'' ''append'' 1;
          tr1 = set_query (''append offset '' @ show_nat (unat offset)) tr0
      in if sys < 0 \<or> sys \<ge> 2 ^ 64 then Inl Panic
         else
           let tr2 = add_step X t1
                 (Retrieve ''L1::WAL'' (offset_symbol offset)
                    (jmap [(''offset'', JInt (uint offset)), (''hash'', JStr event_hash),
                           (''timestamp'', JInt sys)])) tr1;
               (tid, tr3) = finalize X tr2
           in Inr (k\<lparr>l1_handler :=
                emit_trace_start t2 ''append'' tid (initiating_query tr3) (l1_handler k)\<rparr>))"

definition on_kernel_commit ::
    "extern \<Rightarrow> timestamp \<Rightarrow> timestamp \<Rightarrow> timestamp \<Rightarrow> u64 \<Rightarrow> string \<Rightarrow> l1_kernel \<Rightarrow> l1_kernel" where
  "on_kernel_commit X t0 t1 t2 offset tip_hash k =
     (let tr0 = trace_new t0 ''kernel_001'' ''commit'' 2;
          tr1 = add_step X t1
            (CheckAuthorization ''kernel'' ''commit_offset'' (offset_symbol offset) True
               ''monotonic_and_valid'') tr0;
          (tid, tr2) = finalize X tr1
      in k\<lparr>l1_handler :=
           emit_trace_complete t2 tid 5 1 (Some (fl_of_rat binary64 (99 / 100))) (l1_handler k)\<rparr>)"

definition on_kernel_rotate ::
    "extern \<Rightarrow> timestamp \<Rightarrow> timestamp \<Rightarrow> timestamp \<Rightarrow> timestamp \<Rightarrow> u64 \<Rightarrow> string \<Rightarrow> l1_kernel \<Rightarrow> l1_kernel" where
  "on_kernel_rotate X t0 t1 t1' t2 segment prev_hash k =
     (let tr0 = trace_new t0 ''kernel_001'' ''rotate'' 3;
          tr1 = add_step X t1
            (Verify (''segment_'' @ show_nat (unat segment)) ''prev_hash_chain'' True None) tr0;
          tr2 = add_step X t1' (Conclude ''Segment rotated successfully'' (Fin False 1)) tr1;
          (tid, tr3) = finalize X tr2
      in k\<lparr>l1_handler := emit_trace_complete t2 tid 10 2 (Some (Fin False 1)) (l1_handler k)\<rparr>)"

section \<open>The policy gate\<close>

record l3_policy =
  l3_handler :: a2a_handler

definition l3_new :: "string \<Rightarrow> l3_policy" where
  "l3_new agent = \<lparr>l3_handler = handler_new agent\<rparr>"

definition authorize_trace ::
    "extern \<Rightarrow> timestamp \<Rightarrow> timestamp \<times> timestamp \<times> timestamp \<Rightarrow> string \<Rightarrow> string \<Rightarrow> string \<Rightarrow> bool \<Rightarrow>
     string \<Rightarrow> reasoning_trace" where
  "authorize_trace X t0 ts who act rsc ok why =
     (let (t1, t2, t3) = ts;
          tr0 = trace_new t0 ''policy_001'' ''authorize'' 1;
          tr1 = set_query (''authorize '' @ who @ '' '' @ act @ '' '' @ rsc) tr0;
          tr2 = add_step X t1
            (Retrieve ''L3::Datalog'' (''policy_'' @ act)
               (jmap [(''principal'', JStr who), (''action'', JStr act),
                      (''allowed'', JBool ok)])) tr1;
          tr3 = add_step X t2 (CheckAuthorization who act rsc ok why) tr2
      in add_step X t3
           (Conclude (''Authorization: '' @ (if ok then ''ALLOW'' else ''DENY''))
              (fl_of_rat binary64 (95 / 100))) tr3)"

definition on_policy_authorize ::
    "extern \<Rightarrow> timestamp \<Rightarrow> timestamp \<times> timestamp \<times> timestamp \<Rightarrow> timestamp \<Rightarrow> string \<Rightarrow> string \<Rightarrow>
     string \<Rightarrow> bool \<Rightarrow> string \<Rightarrow> l3_policy \<Rightarrow> l3_policy" where
  "on_policy_authorize X t0 ts te who act rsc ok why k =
     (let (tid, tr) = finalize X (authorize_trace X t0 ts who act rsc ok why)
      in k\<lparr>l3_handler := emit_trace_start te ''authorize'' tid (initiating_query tr) (l3_handler k)\<rparr>)"

definition on_policy_anomaly ::
    "extern \<Rightarrow> timestamp \<Rightarrow> timestamp \<Rightarrow> timestamp \<Rightarrow> timestamp \<Rightarrow> string \<Rightarrow> json \<Rightarrow> l3_policy \<Rightarrow> l3_policy" where
  "on_policy_anomaly X t0 t1 t2 te anomaly details k =
     (let tr0 = trace_new t0 ''policy_001'' ''anomaly'' 2;
          tr1 = add_step X t1 (Retrieve ''L3::Anomaly'' anomaly details) tr0;
          tr2 = add_step X t2
            (Conclude (''Anomaly detected: '' @ anomaly) (fl_of_rat binary64 (85 / 100))) tr1;
          (tid, tr3) = finalize X tr2
      in k\<lparr>l3_handler :=
           emit_trace_complete te tid 15 2 (Some (fl_of_rat binary64 (85 / 100))) (l3_handler k)\<rparr>)"

section \<open>The knowledge layer\<close>

record l5_knowledge =
  l5_manager :: stream_manager

definition l5_new :: l5_knowledge where
  "l5_new = \<lparr>l5_manager = manager_new\<rparr>"

definition store_reasoning_trace ::
    "bool \<Rightarrow> reasoning_trace \<Rightarrow> l5_knowledge \<Rightarrow> string list res \<times> l5_knowledge" where
  "store_reasoning_trace logging t k =
     (let symbols = extract_symbols t;
          k' = k\<lparr>l5_manager := store_trace t (l5_manager k)\<rparr>
      in (if logging
          then res_map (\<lambda>s. res_bind (slice_to 16 (trace_id t)) (\<lambda>short.
                 Inr (''Indexed symbol '' @ [CHR 0x27] @ s @ [CHR 0x27] @ '' from trace '' @ short))) symbols
          else Inr [], k'))"

definition link_traces :: "bool \<Rightarrow> string \<Rightarrow> string \<Rightarrow> string \<Rightarrow> string list res" where
  "link_traces logging source_id target_id relation =
     (if logging
      then res_bind (slice_to 16 source_id) (\<lambda>a. res_bind (slice_to 16 target_id) (\<lambda>b.
             Inr [''Linking traces: '' @ a @ '' --['' @ relation @ '']--> '' @ b]))
      else Inr [])"

definition query_related_traces :: "string list \<Rightarrow> string \<Rightarrow> l5_knowledge \<Rightarrow> string list" where
  "query_related_traces ord smb k =
     map trace_id (filter (\<lambda>t. smb \<in> set (extract_symbols t)) (get_traces ord (l5_manager k)))"

definition get_trace_timeline :: "extern \<Rightarrow> string \<Rightarrow> l5_knowledge \<Rightarrow> string option res" where
  "get_trace_timeline X tid k =
     res_bind (get_timeline X (l5_manager k) tid) (\<lambda>found.
       case found of None \<Rightarrow> Inr None
       | Some v \<Rightarrow> res_bind (render_ascii v) (\<lambda>s. Inr (Some s)))"

section \<open>The functions for Erlang\<close>

definition seb_reasoning_subscribe :: "string \<Rightarrow> string \<Rightarrow> string" where
  "seb_reasoning_subscribe path md =
     (let p = (case map_option partition_path (partition_from_path path) of
                 Some p \<Rightarrow> p | None \<Rightarrow> path)
      in ''subscription:'' @ p)"

definition seb_reasoning_emit_step :: "string \<Rightarrow> nat \<Rightarrow> json \<Rightarrow> bool" where
  "seb_reasoning_emit_step tid i step_json = True"

definition seb_reasoning_challenge :: "string \<Rightarrow> string \<Rightarrow> nat option \<Rightarrow> string" where
  "seb_reasoning_challenge tid evidence i =
     ''challenge:'' @ tid @ '':'' @ show_nat (length evidence) @ '':''
     @ show_nat (case i of None \<Rightarrow> 0 | Some n \<Rightarrow> n)"

definition seb_reasoning_compose :: "string list \<Rightarrow> string \<Rightarrow> string" where
  "seb_reasoning_compose subs rule =
     ''composition:'' @ show_nat (length subs) @ '':'' @ rule"

definition seb_reasoning_query :: "string \<Rightarrow> json \<Rightarrow> string list" where
  "seb_reasoning_query ty data = []"

section \<open>Facts about the hooks\<close>

datatype kernel_op =
    KAppend timestamp int timestamp timestamp u64 string
  | KCommit timestamp timestamp timestamp u64 string
  | KRotate timestamp timestamp timestamp timestamp u64 string

text \<open>A hook that panics leaves the kernel as it was.\<close>

fun apply_kernel_op :: "extern \<Rightarrow> kernel_op \<Rightarrow> l1_kernel \<Rightarrow> l1_kernel" where
  "apply_kernel_op X (KAppend t0 sys t1 t2 offset h) k =
     (case on_kernel_append X t0 sys t1 t2 offset h k of Inl e \<Rightarrow> k | Inr k' \<Rightarrow> k')"
| "apply_kernel_op X (KCommit t0 t1 t2 offset h) k = on_kernel_commit X t0 t1 t2 offset h k"
| "apply_kernel_op X (KRotate t0 t1 t1' t2 seg h) k = on_kernel_rotate X t0 t1 t1' t2 seg h k"

fun hook_returns :: "kernel_op \<Rightarrow> bool" where
  "hook_returns (KAppend t0 sys t1 t2 offset h) \<longleftrightarrow> 0 \<le> sys \<and> sys < 2 ^ 64"
| "hook_returns _ \<longleftrightarrow> True"

fun hook_type :: "kernel_op \<Rightarrow> event_type" where
  "hook_type (KAppend t0 sys t1 t2 offset h) = TraceStart"
| "hook_type _ = TraceComplete"

fun hook_steps :: "kernel_op \<Rightarrow> nat" where
  "hook_steps (KRotate t0 t1 t1' t2 seg h) = 2"
| "hook_steps _ = 1"

lemma finalize_fields [simp]:
  "initiating_query (snd (finalize X t)) = initiating_query t" "steps (snd (finalize X t)) = steps t"
  by (simp_all add: finalize_eq Let_def)

lemma apply_kernel_op_log:
  "\<exists>es. get_events (l1_handler (apply_kernel_op X op k)) = get_events (l1_handler k) @ es \<and>
     handler_agent (l1_handler (apply_kernel_op X op k)) = handler_agent (l1_handler k) \<and>
     map event_code es = (if hook_returns op then [event_as_u16 (hook_type op)] else []) \<and>
     (\<forall>e \<in> set es. event_partition e = partition_path (AgentTraces (handler_agent (l1_handler k))))"
  by (cases op)
    (auto simp: on_kernel_append_def on_kernel_commit_def on_kernel_rotate_def Let_def split_beta
      emit_defs log_push_def get_events_def)

lemma kernel_run_log:
  "\<exists>es. get_events (l1_handler (fold (apply_kernel_op X) ops k)) = get_events (l1_handler k) @ es \<and>
     handler_agent (l1_handler (fold (apply_kernel_op X) ops k)) = handler_agent (l1_handler k) \<and>
     map event_code es = map (\<lambda>op. event_as_u16 (hook_type op)) (filter hook_returns ops) \<and>
     (\<forall>e \<in> set es. event_partition e = partition_path (AgentTraces (handler_agent (l1_handler k))))"
proof (induction ops arbitrary: k)
  case (Cons op ops)
  obtain es where es: "get_events (l1_handler (apply_kernel_op X op k)) = get_events (l1_handler k) @ es"
    "handler_agent (l1_handler (apply_kernel_op X op k)) = handler_agent (l1_handler k)"
    "map event_code es = (if hook_returns op then [event_as_u16 (hook_type op)] else [])"
    "\<forall>e \<in> set es. event_partition e = partition_path (AgentTraces (handler_agent (l1_handler k)))"
    using apply_kernel_op_log [of X op k] by blast
  obtain fs where fs: "get_events (l1_handler (fold (apply_kernel_op X) ops (apply_kernel_op X op k))) =
      get_events (l1_handler (apply_kernel_op X op k)) @ fs"
    "handler_agent (l1_handler (fold (apply_kernel_op X) ops (apply_kernel_op X op k))) =
      handler_agent (l1_handler (apply_kernel_op X op k))"
    "map event_code fs = map (\<lambda>op. event_as_u16 (hook_type op)) (filter hook_returns ops)"
    "\<forall>e \<in> set fs. event_partition e =
      partition_path (AgentTraces (handler_agent (l1_handler (apply_kernel_op X op k))))"
    using Cons.IH [of "apply_kernel_op X op k"] by blast
  show ?case
    by (rule exI [of _ "es @ fs"]) (use es fs in auto)
qed simp

lemma seb_reasoning_subscribe_eq: "seb_reasoning_subscribe path md = ''subscription:'' @ path"
  by (auto simp: seb_reasoning_subscribe_def Let_def dest: partition_codec.dec_SomeD
      split: option.splits)

section \<open>Facts about the knowledge layer\<close>

lemma l5_store_fold:
  "l5_manager (fold (\<lambda>t k. snd (store_reasoning_trace logging t k)) ts k) =
     fold store_trace ts (l5_manager k)"
  by (induction ts arbitrary: k) (simp_all add: store_reasoning_trace_def Let_def)

lemma set_get_traces:
  "iter_order ord (stored_traces m) \<Longrightarrow> set (get_traces ord m) = {t. \<exists>i. get_trace m i = Some t}"
  by (simp add: get_traces_def get_trace_def set_hm_values)

text \<open>The outcome of storing: a panic exactly when a log line has to cut the identifier and cannot.\<close>

lemma store_reasoning_trace_outcome:
  "fst (store_reasoning_trace logging t k) = Inl e \<longleftrightarrow>
     e = Panic \<and> logging \<and> extract_symbols t \<noteq> [] \<and> \<not> is_char_boundary (trace_id t) 16"
proof (cases "is_char_boundary (trace_id t) 16")
  case True
  then have "slice_to 16 (trace_id t) = Inr (take 16 (trace_id t))" by (simp add: slice_to_def)
  then show ?thesis using True
    by (auto simp: store_reasoning_trace_def Let_def elim!: res_map_InlE)
next
  case False
  then have "slice_to 16 (trace_id t) = Inl Panic" by (simp add: slice_to_def)
  with False show ?thesis
    by (cases "extract_symbols t") (auto simp: store_reasoning_trace_def Let_def)
qed

section \<open>Properties\<close>

text \<open>
  The kernel's hooks log one event each: after any sequence of hook calls the log has, in order, a
  start for every append and a completion for every commit and rotation, except for the appends that
  panic because of the system clock, and every event is in the partition of the integration's agent.
\<close>

lemma kernel_hooks_log:
  "map event_code (get_events (l1_handler (fold (apply_kernel_op X) ops (l1_new agent)))) =
     map (\<lambda>op. event_as_u16 (hook_type op)) (filter hook_returns ops) \<and>
   (\<forall>e \<in> set (get_events (l1_handler (fold (apply_kernel_op X) ops (l1_new agent)))).
      event_partition e = ''reasoning/'' @ agent)"
  using kernel_run_log [of X ops "l1_new agent"]
  by (auto simp: l1_new_def handler_new_def get_events_def)

text \<open>
  The event of an authorization does not show its decision: for the same request, an allowed and a
  denied authorization log events with the same code, partition and time whose payloads agree on
  every key other than \<open>trace_id\<close>. The traces themselves differ in their last step, and the call drops
  them: the log of the handler is all that it returns changed.
\<close>

lemma authorization_event_hides_decision:
  "\<exists>e e'.
     get_events (l3_handler (on_policy_authorize X t0 ts te who act rsc True why k)) =
       get_events (l3_handler k) @ [e] \<and>
     get_events (l3_handler (on_policy_authorize X t0 ts te who act rsc False why' k)) =
       get_events (l3_handler k) @ [e'] \<and>
     event_code e' = event_code e \<and> event_partition e' = event_partition e \<and>
     event_timestamp e' = event_timestamp e \<and>
     (\<forall>key. jget key (event_payload e') = jget key (event_payload e) \<or> key = ''trace_id'') \<and>
     step_payload (last (steps (authorize_trace X t0 ts who act rsc True why))) \<noteq>
       step_payload (last (steps (authorize_trace X t0 ts who act rsc False why')))"
proof -
  let ?e = "\<lambda>ok why. last (get_events (l3_handler (on_policy_authorize X t0 ts te who act rsc ok why k)))"
  show ?thesis
    by (rule exI [of _ "?e True why"], rule exI [of _ "?e False why'"], intro conjI)
      (simp_all add: on_policy_authorize_def authorize_trace_def Let_def split_beta emit_defs log_push_def
        get_events_def trace_start_tree_def jmap_def set_query_def add_step_def trace_new_def)
qed

text \<open>
  C33: the knowledge layer answers with what was stored: after storing traces one after another, the
  query for a symbol gives, once each, the identifiers under which the trace stored last mentions the
  symbol. Storing changes the store also when the call panics, which happens exactly when a log
  line is written for a symbol and the identifier cannot be cut after 16 bytes.
\<close>

theorem related_traces_after_store:
  assumes "iter_order ord (stored_traces
      (l5_manager (fold (\<lambda>t k. snd (store_reasoning_trace logging t k)) ts l5_new)))"
  shows "set (query_related_traces ord smb
        (fold (\<lambda>t k. snd (store_reasoning_trace logging t k)) ts l5_new)) =
      {i. \<exists>t. List.find (\<lambda>t. trace_id t = i) (rev ts) = Some t \<and> smb \<in> set (extract_symbols t)} \<and>
    distinct (query_related_traces ord smb
        (fold (\<lambda>t k. snd (store_reasoning_trace logging t k)) ts l5_new)) \<and>
    (fst (store_reasoning_trace logging u k) = Inl e \<longleftrightarrow>
      e = Panic \<and> logging \<and> extract_symbols u \<noteq> [] \<and> \<not> is_char_boundary (trace_id u) 16)"
proof -
  let ?m = "fold store_trace ts manager_new"
  have m: "l5_manager (fold (\<lambda>t k. snd (store_reasoning_trace logging t k)) ts l5_new) = ?m"
    by (simp add: l5_store_fold l5_new_def)
  have get: "get_trace ?m i = List.find (\<lambda>t. trace_id t = i) (rev ts)" for i
    by (simp add: trace_store.get_fold) (simp add: get_trace_def manager_new_def split: option.splits)
  have keyed: "trace_store.keyed ?m"
    by (rule trace_store.keyed_fold) (simp add: trace_store.keyed_def get_trace_def manager_new_def)
  from assms have ord: "iter_order ord (stored_traces ?m)" by (simp add: m)
  then have vals: "get_traces ord ?m = map (\<lambda>i. the (get_trace ?m i)) ord"
    by (simp add: get_traces_def get_trace_def hm_values_eq_map iter_order_def)
  have some: "\<exists>t. get_trace ?m i = Some t \<and> trace_id t = i" if "i \<in> set ord" for i
    using that ord keyed by (fastforce simp: iter_order_def fmlookup_dom_iff get_trace_def trace_store.keyed_def)
  then have "map trace_id (get_traces ord ?m) = ord"
    by (auto simp: vals comp_def intro!: map_idI) (metis option.sel)
  then have "distinct (map trace_id (get_traces ord ?m))" using ord by (simp add: iter_order_def)
  then have dist: "distinct (map trace_id (filter P (get_traces ord ?m)))" for P
    by (rule distinct_map_filter)
  have "trace_id ` {t. (\<exists>i. get_trace ?m i = Some t) \<and> P t} = {i. \<exists>t. get_trace ?m i = Some t \<and> P t}" for P
    using keyed by (auto simp: trace_store.keyed_def)
  then show ?thesis
    unfolding query_related_traces_def m store_reasoning_trace_outcome
    using dist set_get_traces [OF ord] by (simp add: get Collect_conj_eq [symmetric])
qed

theorem related_traces_after_store_witness:
  "query_related_traces [''t1''] ''s''
     (fold (\<lambda>t k. snd (store_reasoning_trace False t k))
        [add_step demo_extern 0 (Retrieve ''src'' ''s'' JNull) (demo_trace ''t1'' [])] l5_new) \<noteq> []"
proof -
  let ?ts = "[add_step demo_extern 0 (Retrieve ''src'' ''s'' JNull) (demo_trace ''t1'' [])]"
  have "iter_order [''t1''] (stored_traces
      (l5_manager (fold (\<lambda>t k. snd (store_reasoning_trace False t k)) ?ts l5_new)))"
    unfolding l5_store_fold
    by (simp add: l5_new_def manager_new_def store_trace_def iter_order_def add_step_def demo_trace_def)
  from related_traces_after_store [OF this, of "''s''"]
  have "set (query_related_traces [''t1''] ''s''
      (fold (\<lambda>t k. snd (store_reasoning_trace False t k)) ?ts l5_new)) =
      {i. \<exists>t. List.find (\<lambda>t. trace_id t = i) (rev ?ts) = Some t \<and> ''s'' \<in> set (extract_symbols t)}"
    by blast
  moreover have "''t1'' \<in> {i. \<exists>t. List.find (\<lambda>t. trace_id t = i) (rev ?ts) = Some t \<and>
      ''s'' \<in> set (extract_symbols t)}"
    by (simp add: add_step_def demo_trace_def extract_symbols_def trace_new_def)
  ultimately show ?thesis by (metis empty_iff empty_set)
qed

end
