(* ===== verification/Event_Typing.thy ===== *)
theory Event_Typing
  imports Integration
begin

text \<open>
  The types of the events in \<open>seb/reasoning/src/a2a_protocol.rs\<close>. An event carries a code and a
  payload that is an untyped \<open>serde_json::Value\<close>; the seven payload structs say what it should be. Here
  the structs are types of JSON trees, and an event is typed when its payload has the type of its code
  and of no other, and its partition is one for this type. Every event that a handler, a hook of the
  kernel or of the policy gate logs is typed.
\<close>

section \<open>Types of JSON trees\<close>

datatype json_type =
    TStr
  | TNat
  | TFloat
  | TAny
  | TOption json_type
  | TList json_type
  | TStruct "(string \<times> json_type) list"

fun has_type :: "json \<Rightarrow> json_type \<Rightarrow> bool" where
  "has_type j TStr \<longleftrightarrow> (case j of JStr s \<Rightarrow> True | _ \<Rightarrow> False)"
| "has_type j TNat \<longleftrightarrow> (case j of JInt i \<Rightarrow> 0 \<le> i | _ \<Rightarrow> False)"
| "has_type j TFloat \<longleftrightarrow> (case j of JFloat (Fin sg m) \<Rightarrow> True | _ \<Rightarrow> False)"
| "has_type j TAny \<longleftrightarrow> True"
| "has_type j (TOption t) \<longleftrightarrow> j = JNull \<or> has_type j t"
| "has_type j (TList t) \<longleftrightarrow> (case j of JArr xs \<Rightarrow> list_all (\<lambda>x. has_type x t) xs | _ \<Rightarrow> False)"
| "has_type j (TStruct fs) \<longleftrightarrow>
     (case j of
        JObj ms \<Rightarrow> map fst ms = map fst fs \<and>
          list_all2 (\<lambda>m f. has_type (snd m) (snd f)) ms fs
      | _ \<Rightarrow> False)"

text \<open>The payload structs, with their fields in the order in which a \<open>Value\<close> keeps them.\<close>

fun payload_type :: "event_type \<Rightarrow> json_type" where
  "payload_type TraceStart = TStruct
     [(''agent_id'', TStr), (''competency'', TStr), (''query'', TOption TStr), (''trace_id'', TStr)]"
| "payload_type StepEvent = TStruct
     [(''step_hash'', TStr), (''step_index'', TNat), (''step_json'', TAny), (''trace_id'', TStr)]"
| "payload_type TraceComplete = TStruct
     [(''confidence'', TOption TFloat), (''duration_ms'', TNat), (''step_count'', TNat), (''trace_id'', TStr)]"
| "payload_type ChallengeEvent = TStruct
     [(''challenge_trace_id'', TStr), (''counter_evidence'', TStr),
      (''target_step_index'', TOption TNat), (''target_trace_id'', TStr)]"
| "payload_type Composition = TStruct
     [(''composition_rule'', TStr), (''composition_trace_id'', TStr), (''sub_trace_ids'', TList TStr)]"
| "payload_type Query = TStruct
     [(''agent_id'', TStr), (''query_data'', TAny), (''query_id'', TStr), (''query_type'', TStr)]"
| "payload_type Response = TStruct
     [(''query_id'', TStr), (''responding_agent'', TStr), (''results'', TList TAny),
      (''trace_ids'', TList TStr)]"

definition event_types :: "event_type list" where
  "event_types =
     [TraceStart, StepEvent, TraceComplete, ChallengeEvent, Composition, Query, Response]"

text \<open>The partition an event of a type is in: of an agent, or the global one of the type.\<close>

definition type_partition :: "event_type \<Rightarrow> string \<Rightarrow> bool" where
  "type_partition ty path \<longleftrightarrow>
     (case ty of
        TraceStart \<Rightarrow> starts_with path ''reasoning/''
      | TraceComplete \<Rightarrow> starts_with path ''reasoning/''
      | ChallengeEvent \<Rightarrow> path = partition_path ChallengesPart
      | Composition \<Rightarrow> path = partition_path Compositions
      | _ \<Rightarrow> path = partition_path Queries)"

definition event_typed :: "a2a_event \<Rightarrow> bool" where
  "event_typed e \<longleftrightarrow>
     (case event_from_u16 (event_code e) of
        None \<Rightarrow> False
      | Some ty \<Rightarrow> filter (\<lambda>u. has_type (event_payload e) (payload_type u)) event_types = [ty] \<and>
          type_partition ty (event_partition e))"

section \<open>Every logged event is typed\<close>

lemma has_type_jopt: "has_type (jopt x) (TOption TStr)"
  by (cases x) (simp_all add: jopt_def)

lemma has_type_jstrs: "has_type (to_value (jstrs xs)) (TList TStr)"
  by (simp add: jstrs_def list_all_iff)

lemma to_value_jopt [simp]: "to_value (jopt x) = jopt x"
  by (cases x) (simp_all add: jopt_def)

lemma to_value_jfloat [simp]: "to_value (jfloat c) = jfloat c"
  by (cases c) simp_all

lemma has_type_jfloat: "has_type (jfloat c) (TOption TFloat)"
  by (cases c) simp_all

lemmas has_type_values =
  has_type_jopt [unfolded has_type.simps] has_type_jfloat [unfolded has_type.simps]
  has_type_jstrs [unfolded has_type.simps(6)]

lemmas tree_defs =
  trace_start_tree_def step_tree_def trace_complete_tree_def challenge_tree_def composition_tree_def jmap_def

text \<open>The names of the fields alone tell the types apart.\<close>

fun field_names :: "json_type \<Rightarrow> string list" where
  "field_names (TStruct fs) = map fst fs"
| "field_names _ = []"

lemma has_type_names: "has_type j (payload_type ty) \<Longrightarrow> map fst (members j) = field_names (payload_type ty)"
  by (cases ty; cases j) simp_all

lemma payload_type_unique:
  assumes "has_type j (payload_type ty)" and "has_type j (payload_type u)"
  shows "u = ty"
proof -
  have "field_names (payload_type u) = field_names (payload_type ty)"
    using assms by (simp add: has_type_names [symmetric])
  then show ?thesis by (cases ty; cases u) simp_all
qed

lemma payload_types_filter:
  assumes "has_type j (payload_type ty)"
  shows "filter (\<lambda>u. has_type j (payload_type u)) event_types = [ty]"
proof -
  have "filter (\<lambda>u. has_type j (payload_type u)) event_types = filter (\<lambda>u. u = ty) event_types"
    using assms payload_type_unique by (intro filter_cong) blast+
  also have "\<dots> = [ty]" by (cases ty) (simp_all add: event_types_def)
  finally show ?thesis .
qed

lemma event_typedI:
  "event_code e = event_as_u16 ty \<Longrightarrow> has_type (event_payload e) (payload_type ty) \<Longrightarrow>
   type_partition ty (event_partition e) \<Longrightarrow> event_typed e"
  by (simp add: event_typed_def event_codec.dec_enc payload_types_filter)

lemma emitted_payload_type: "has_type (event_payload (emitted X agent op)) (payload_type (op_type op))"
  by (cases op)
    (simp_all add: emitted_def emit_defs log_push_def handler_new_def Let_def tree_defs
      has_type_values split: option.splits)

lemma emitted_partition_type: "type_partition (op_type op) (partition_path (op_partition agent op))"
  by (cases op) (simp_all add: type_partition_def starts_with_iff)

lemma emitted_typed: "event_typed (emitted X agent op)"
  by (rule event_typedI [OF emitted_code emitted_payload_type])
    (simp add: emitted_partition_type)


section \<open>The invariant of the logs\<close>

definition log_typed :: "a2a_handler \<Rightarrow> bool" where
  "log_typed h \<longleftrightarrow> list_all event_typed (get_events h)"

lemma log_typed_new [simp]: "log_typed (handler_new agent)"
  by (simp add: log_typed_def handler_new_def get_events_def)

lemma log_typed_apply: "log_typed h \<Longrightarrow> log_typed (apply_a2a_op X op h)"
  by (simp add: log_typed_def apply_a2a_op_push event_log.entries_push emitted_typed)

lemma log_typed_emit [intro]:
  "log_typed h \<Longrightarrow> log_typed (emit_trace_start now cmp tid q h)"
  "log_typed h \<Longrightarrow> log_typed (emit_trace_complete now tid d n c h)"
  using log_typed_apply [of h X "OpTraceStart now cmp tid q" for X]
    log_typed_apply [of h X "OpTraceComplete now tid d n c" for X] by simp_all

lemma log_typed_run: "log_typed h \<Longrightarrow> log_typed (fold (apply_a2a_op X) ops h)"
  by (induction ops arbitrary: h) (simp_all add: log_typed_apply)

text \<open>The hooks of the policy gate, as operations.\<close>

datatype policy_op =
    PAuthorize timestamp "timestamp \<times> timestamp \<times> timestamp" timestamp string string string bool string
  | PAnomaly timestamp timestamp timestamp timestamp string json

fun apply_policy_op :: "extern \<Rightarrow> policy_op \<Rightarrow> l3_policy \<Rightarrow> l3_policy" where
  "apply_policy_op X (PAuthorize t0 ts te who act rsc ok why) k = on_policy_authorize X t0 ts te who act rsc ok why k"
| "apply_policy_op X (PAnomaly t0 t1 t2 te anomaly details) k = on_policy_anomaly X t0 t1 t2 te anomaly details k"

lemma log_typed_kernel: "log_typed (l1_handler k) \<Longrightarrow> log_typed (l1_handler (apply_kernel_op X op k))"
  by (cases op)
    (auto simp: on_kernel_append_def on_kernel_commit_def on_kernel_rotate_def Let_def split_beta)

lemma log_typed_policy: "log_typed (l3_handler k) \<Longrightarrow> log_typed (l3_handler (apply_policy_op X op k))"
  by (cases op) (auto simp: on_policy_authorize_def on_policy_anomaly_def Let_def split_beta)

lemma log_typed_kernel_run:
  "log_typed (l1_handler k) \<Longrightarrow> log_typed (l1_handler (fold (apply_kernel_op X) ops k))"
  by (induction ops arbitrary: k) (simp_all add: log_typed_kernel)

lemma log_typed_policy_run:
  "log_typed (l3_handler k) \<Longrightarrow> log_typed (l3_handler (fold (apply_policy_op X) ops k))"
  by (induction ops arbitrary: k) (simp_all add: log_typed_policy)

text \<open>In a typed log, asking for a code is asking for the payloads of its type.\<close>

lemma event_typed_code:
  "event_typed e \<Longrightarrow> event_code e = event_as_u16 ty \<longleftrightarrow> has_type (event_payload e) (payload_type ty)"
proof -
  assume typed: "event_typed e"
  then obtain u where u: "event_from_u16 (event_code e) = Some u"
    and only: "filter (\<lambda>u. has_type (event_payload e) (payload_type u)) event_types = [u]"
    by (auto simp: event_typed_def split: option.splits)
  from only have "u \<in> set (filter (\<lambda>u. has_type (event_payload e) (payload_type u)) event_types)"
    by simp
  then have "has_type (event_payload e) (payload_type u)" by simp
  moreover have "event_code e = event_as_u16 u" using u by (simp add: event_codec.dec_Some_iff)
  ultimately show ?thesis
    using payload_type_unique event_codec.enc_inj by metis
qed

lemma get_events_by_type_typed:
  "log_typed h \<Longrightarrow>
   get_events_by_type h ty = filter (\<lambda>e. has_type (event_payload e) (payload_type ty)) (get_events h)"
  unfolding get_events_by_type_def log_typed_def get_events_def list_all_iff
  by (rule filter_cong) (simp_all add: event_typed_code)

text \<open>
  C21: every event is typed. After any sequence of operations of a handler, of hooks of the kernel and of
  hooks of the policy gate, every event of their logs has a code of the protocol, a payload that has the
  fields and types of the payload struct of this code and of no other, and a partition for it; the same
  holds for what a stream manager answers that received the events. So a query by event type answers
  exactly the events whose payloads have the type.
\<close>

theorem logged_events_typed:
  "(let h = fold (apply_a2a_op X) ops (handler_new agent);
        h1 = l1_handler (fold (apply_kernel_op X) kops (l1_new agent));
        h3 = l3_handler (fold (apply_policy_op X) pops (l3_new agent));
        es = get_events h @ get_events h1 @ get_events h3
    in list_all event_typed es \<and>
       list_all event_typed (get_partition_events (fold emit_event es manager_new) path) \<and>
       get_events_by_type h ty = filter (\<lambda>e. has_type (event_payload e) (payload_type ty)) (get_events h))"
proof -
  have h: "log_typed (fold (apply_a2a_op X) ops (handler_new agent))" by (simp add: log_typed_run)
  have h1: "log_typed (l1_handler (fold (apply_kernel_op X) kops (l1_new agent)))"
    by (rule log_typed_kernel_run) (simp add: l1_new_def)
  have h3: "log_typed (l3_handler (fold (apply_policy_op X) pops (l3_new agent)))"
    by (rule log_typed_policy_run) (simp add: l3_new_def)
  have new: "get_partition_events manager_new path = []"
    by (simp add: get_partition_events_def manager_new_def)
  show ?thesis
    using h h1 h3 get_events_by_type_typed [OF h]
    by (auto simp: Let_def event_index.query_fold new log_typed_def list_all_iff)
qed

end
