(* ===== verification/Reasoning_Tests.thy ===== *)
theory Reasoning_Tests
  imports Event_Typing
begin

text \<open>
  The unit tests of \<open>seb/reasoning/src\<close>, each a definition that says that it runs without panic and that
  its assertions hold, and the theorem that all of them hold in the model. \<open>clk\<close> gives the readings of the
  clock, \<open>ord\<close> the iteration order of the traces of a manager, \<open>sys\<close> the system clock in nanoseconds.
\<close>

section \<open>Tests of trace.rs\<close>

definition test_trace_creation :: "extern \<Rightarrow> (nat \<Rightarrow> timestamp) \<Rightarrow> bool" where
  "test_trace_creation X clk \<longleftrightarrow>
     (let t = add_step X (clk 1) (Retrieve ''L1'' ''offset_101'' (jmap [(''value'', JInt 42)]))
                (trace_new (clk 0) ''agent_001'' ''verify'' 1)
      in length (steps t) = 1)"

definition test_trace_id_generation :: "extern \<Rightarrow> (nat \<Rightarrow> timestamp) \<Rightarrow> bool" where
  "test_trace_id_generation X clk \<longleftrightarrow>
     (let t = add_step X (clk 1) (Retrieve ''L1'' ''test'' (jmap []))
                (trace_new (clk 0) ''agent_001'' ''verify'' 1);
          (id1, t1) = finalize X t;
          (id2, t2) = finalize X t1
      in id1 \<noteq> [] \<and> length id1 = 64 \<and> id1 = id2)"

definition test_cycle_detection :: "extern \<Rightarrow> (nat \<Rightarrow> timestamp) \<Rightarrow> bool" where
  "test_cycle_detection X clk \<longleftrightarrow>
     (let t1 = snd (finalize X (trace_new (clk 0) ''agent_001'' ''verify'' 1));
          t2 = snd (finalize X (trace_new (clk 1) ''agent_002'' ''verify'' 1));
          t1 = add_parent (Extends (trace_id t2)) t1;
          t2 = add_parent (Extends (trace_id t1)) t2
      in has_cycles t1 [t1, t2])"

definition test_symbol_extraction :: "extern \<Rightarrow> (nat \<Rightarrow> timestamp) \<Rightarrow> bool" where
  "test_symbol_extraction X clk \<longleftrightarrow>
     (let t = trace_new (clk 0) ''agent_001'' ''verify'' 1;
          t = add_step X (clk 1) (Retrieve ''L1'' ''symbol_a'' (jmap [])) t;
          t = add_step X (clk 2) (CheckAuthorization ''user_1'' ''read'' ''doc_1'' True ''owned'') t;
          symbols = extract_symbols t
      in ''symbol_a'' \<in> set symbols \<and> ''user_1'' \<in> set symbols \<and> ''read'' \<in> set symbols)"

section \<open>Tests of a2a\_protocol.rs\<close>

definition test_event_type_codes :: bool where
  "test_event_type_codes \<longleftrightarrow>
     event_as_u16 TraceStart = 0x0300 \<and> event_as_u16 ChallengeEvent = 0x0303 \<and>
     event_from_u16 0x0300 = Some TraceStart \<and> event_from_u16 0xFFFF = None"

definition test_partition_paths :: bool where
  "test_partition_paths \<longleftrightarrow>
     (let p1 = AgentTraces ''agent_001''; p2 = ChallengesPart
      in partition_path p1 = ''reasoning/agent_001'' \<and> partition_path p2 = ''reasoning/challenges'' \<and>
         partition_from_path ''reasoning/agent_001'' = Some p1 \<and>
         partition_from_path ''reasoning/challenges'' = Some p2)"

definition test_protocol_handler :: "timestamp \<Rightarrow> bool" where
  "test_protocol_handler now \<longleftrightarrow>
     (let h = emit_trace_start now ''verify'' ''trace_001'' None (handler_new ''agent_001'')
      in case get_events h of [e] \<Rightarrow> event_code e = 0x0300 | _ \<Rightarrow> False)"

definition test_event_creation :: "timestamp \<Rightarrow> bool" where
  "test_event_creation now \<longleftrightarrow>
     (let e = with_trace_start now ''agent_001'' ''verify'' ''trace_001'' (Some ''query'')
      in event_code e = 0x0300 \<and> str_contains (event_partition e) ''agent_001'')"

section \<open>Tests of streaming.rs\<close>

definition test_mermaid_diagram_generation :: "extern \<Rightarrow> (nat \<Rightarrow> timestamp) \<Rightarrow> bool" where
  "test_mermaid_diagram_generation X clk \<longleftrightarrow>
     (let t1 = snd (finalize X (trace_new (clk 0) ''kernel_001'' ''verify'' 1));
          t2 = snd (finalize X (add_parent (Extends (trace_id t1))
                 (trace_new (clk 1) ''policy_001'' ''authorize'' 1)));
          rendered = diagram_render (generate_sequence_diagram [t1, t2])
      in str_contains rendered ''sequenceDiagram'' \<and> str_contains rendered ''kernel_001'' \<and>
         str_contains rendered ''policy_001'')"

definition test_timeline_rendering :: "extern \<Rightarrow> (nat \<Rightarrow> timestamp) \<Rightarrow> bool" where
  "test_timeline_rendering X clk \<longleftrightarrow>
     (let t = trace_new (clk 0) ''agent_001'' ''verify'' 1;
          t = add_step X (clk 1) (Retrieve ''L1'' ''test'' (jmap [])) t;
          t = add_step X (clk 2) (Verify ''sig'' ''ed25519'' True None) t
      in case res_bind (from_trace X t) render_ascii of
           Inl e \<Rightarrow> False
         | Inr ascii \<Rightarrow> str_contains ascii ''Trace:'' \<and> str_contains ascii ''Retrieve'' \<and>
             str_contains ascii ''Verify'')"

definition test_stream_manager :: "timestamp \<Rightarrow> bool" where
  "test_stream_manager now \<longleftrightarrow>
     (let (sub, m) = subscribe_live now ''reasoning/agent_001'' manager_new
      in sub_partition sub = ''reasoning/agent_001'' \<and> length (get_subscriptions m) = 1)"

definition test_emit_and_retrieve_events :: "timestamp \<Rightarrow> bool" where
  "test_emit_and_retrieve_events now \<longleftrightarrow>
     (let e = with_trace_start now ''agent_001'' ''verify'' ''trace_001'' None;
          m = emit_event e manager_new
      in length (get_partition_events m (event_partition e)) = 1)"

definition test_store_and_retrieve_trace :: "extern \<Rightarrow> timestamp \<Rightarrow> bool" where
  "test_store_and_retrieve_trace X now \<longleftrightarrow>
     (let t = snd (finalize X (trace_new now ''agent_001'' ''verify'' 1));
          m = store_trace t manager_new
      in get_trace m (trace_id t) \<noteq> None)"

section \<open>Tests of integration.rs\<close>

definition test_l1_kernel_integration :: "extern \<Rightarrow> int \<Rightarrow> (nat \<Rightarrow> timestamp) \<Rightarrow> bool" where
  "test_l1_kernel_integration X sys clk \<longleftrightarrow>
     (case on_kernel_append X (clk 0) sys (clk 1) (clk 2) 101 ''abc123def'' (l1_new ''kernel_001'') of
        Inl e \<Rightarrow> False
      | Inr k \<Rightarrow>
          let k = on_kernel_commit X (clk 3) (clk 4) (clk 5) 101 ''xyz789'' k;
              k = on_kernel_rotate X (clk 6) (clk 7) (clk 8) (clk 9) 1 ''prev_hash'' k
          in get_events (l1_handler k) \<noteq> [])"

definition test_l3_policy_integration :: "extern \<Rightarrow> (nat \<Rightarrow> timestamp) \<Rightarrow> bool" where
  "test_l3_policy_integration X clk \<longleftrightarrow>
     (let k = on_policy_authorize X (clk 0) (clk 1, clk 2, clk 3) (clk 4) ''user_1'' ''read'' ''doc_1''
                True ''owned'' (l3_new ''policy_001'')
      in get_events (l3_handler k) \<noteq> [])"

definition test_l5_knowledge_integration ::
    "extern \<Rightarrow> bool \<Rightarrow> (stream_manager \<Rightarrow> string list) \<Rightarrow> (nat \<Rightarrow> timestamp) \<Rightarrow> bool" where
  "test_l5_knowledge_integration X logging ord clk \<longleftrightarrow>
     (let t = add_step X (clk 1) (Retrieve ''L1'' ''test_symbol'' (jmap []))
                (trace_new (clk 0) ''agent_001'' ''verify'' 1);
          t = snd (finalize X t)
      in case store_reasoning_trace logging t l5_new of
           (Inl e, k) \<Rightarrow> False
         | (Inr shown, k) \<Rightarrow> query_related_traces (ord (l5_manager k)) ''test_symbol'' k \<noteq> [])"

definition test_erlang_nif_subscribe :: bool where
  "test_erlang_nif_subscribe \<longleftrightarrow>
     str_contains (seb_reasoning_subscribe ''reasoning/agent_001'' ''live'') ''subscription''"

definition test_erlang_nif_challenge :: bool where
  "test_erlang_nif_challenge \<longleftrightarrow>
     (let result = seb_reasoning_challenge ''trace_001'' ''counter_evidence'' (Some 2)
      in str_contains result ''challenge'' \<and> str_contains result ''trace_001'')"

section \<open>All tests hold\<close>

lemma str_containsI: "s = a @ p @ b \<Longrightarrow> str_contains s p"
  by (auto simp: str_contains_iff sublist_def)

lemma trace_tests:
  assumes "digest_is_hex64 X"
  shows "test_trace_creation X clk" "test_trace_id_generation X clk" "test_cycle_detection X clk"
    "test_symbol_extraction X clk"
proof -
  have "length (blake3_hex X s) = 64" for s using assms by (simp add: digest_is_hex64_def)
  moreover from this have "blake3_hex X s \<noteq> []" for s by (metis list.size(3) zero_neq_numeral)
  ultimately show "test_trace_id_generation X clk"
    by (simp add: test_trace_id_generation_def finalize_eq Let_def add_step_def trace_new_def trace_to_json_def)
qed (simp_all add: test_trace_creation_def test_cycle_detection_def test_symbol_extraction_def
      extract_symbols_def add_step_def trace_new_def has_cycles_def find_trace_def parent_ids_def
      add_parent_def finalize_def Let_def)

lemma protocol_tests:
  "test_event_type_codes" "test_partition_paths" "test_protocol_handler now" "test_event_creation now"
proof -
  show "test_event_creation now" by (simp add: test_event_creation_def emit_defs starts_with_def)
qed (simp_all add: test_event_type_codes_def test_partition_paths_def test_protocol_handler_def
      event_from_u16_def partition_from_path_def starts_with_def emit_defs log_push_def handler_new_def
      get_events_def)

lemma in_set_not_Nil: "x \<in> set xs \<Longrightarrow> xs \<noteq> []"
  by auto

text \<open>A rendered timeline contains the descriptions of its entries.\<close>

lemma entry_line_contains: "sublist (entry_description e) (entry_line mx e)"
proof -
  have "entry_line mx e = (''['' @ pad_zero 2 (show_nat (entry_index e)) @ ''] '') @ entry_description e @
      (replicate (50 - char_count (entry_description e)) (CHR '' '') @ '' ''
       @ str_repeat block_char (bar_width mx (entry_duration_ms e)) @ '' ms ''
       @ show_nat (unat (entry_duration_ms e)) @ ''ms'' @ [newline])"
    by (simp add: entry_line_def pad_right_def)
  then show ?thesis unfolding sublist_def by blast
qed

lemma render_contains:
  assumes "render_ascii v = Inr s" and "e \<in> set (timeline_entries v)" and "str_contains (entry_description e) p"
  shows "str_contains s p"
proof -
  obtain es1 es2 where es: "timeline_entries v = es1 @ e # es2" using assms(2) by (auto simp: in_set_conv_decomp)
  obtain mx a where s: "s = a @ concat (map (entry_line mx) (timeline_entries v))"
  proof -
    from assms(1) obtain short where "s = (''Trace: '' @ short @ [newline] @ str_repeat rule_char 29 @ [newline])
        @ concat (map (entry_line (max_duration (map entry_duration_ms (timeline_entries v)))) (timeline_entries v))"
      by (auto simp: render_ascii_def Let_def res_bind_Inr_iff)
    then show thesis by (rule that)
  qed
  have "sublist (entry_line mx e) s"
    unfolding s es sublist_def
    by (rule exI [of _ "a @ concat (map (entry_line mx) es1)"], rule exI [of _ "concat (map (entry_line mx) es2)"]) simp
  then show ?thesis
    using assms(3) entry_line_contains [of e mx] unfolding str_contains_iff
    by (metis sublist_order.order_trans)
qed

lemma streaming_tests:
  "test_mermaid_diagram_generation X clk" "test_timeline_rendering X clk" "test_stream_manager now"
  "test_emit_and_retrieve_events now" "test_store_and_retrieve_trace X now"
proof -
  show "test_mermaid_diagram_generation X clk"
    by (simp add: test_mermaid_diagram_generation_def Let_def generate_sequence_diagram_eq finalize_eq
        first_occurrences_def diagram_render_def trace_new_def add_parent_def starts_with_def)
next
  let ?t = "add_step X (clk 2) (Verify ''sig'' ''ed25519'' True None)
    (add_step X (clk 1) (Retrieve ''L1'' ''test'' (jmap [])) (trace_new (clk 0) ''agent_001'' ''verify'' 1))"
  obtain v where v: "from_trace X ?t = Inr v" "timeline_id v = []"
    "map entry_description (timeline_entries v) = [''Retrieve(test)'', ''Verify(ed25519)'']"
    by (simp add: from_trace_def add_step_def trace_new_def)
  then obtain e1 e2 where e: "timeline_entries v = [e1, e2]" "entry_description e1 = ''Retrieve(test)''"
    "entry_description e2 = ''Verify(ed25519)''" by auto
  obtain r where r: "render_ascii v = Inr (''Trace:'' @ r)" using v(2) by (simp add: render_ascii_def Let_def)
  have "str_contains (''Trace:'' @ r) ''Trace:''" by (rule str_containsI [of _ "[]"]) simp
  moreover have "str_contains (''Trace:'' @ r) ''Retrieve''"
    using render_contains [OF r, of e1 "''Retrieve''"] e by (simp add: starts_with_def)
  moreover have "str_contains (''Trace:'' @ r) ''Verify''"
    using render_contains [OF r, of e2 "''Verify''"] e by (simp add: starts_with_def)
  ultimately show "test_timeline_rendering X clk"
    unfolding test_timeline_rendering_def Let_def v(1) by (simp add: r del: str_contains.simps append.append_Cons)
qed (simp_all add: test_stream_manager_def test_emit_and_retrieve_events_def test_store_and_retrieve_trace_def
      subscribe_live_def push_subscription_def get_subscriptions_def manager_new_def new_subscription_def
      get_partition_events_def emit_event_def get_trace_def store_trace_def Let_def)

lemma hex64_boundary:
  assumes "digest_is_hex64 X"
  shows "is_char_boundary (blake3_hex X s) 16"
proof -
  have "\<forall>c \<in> set (blake3_hex X s). (of_char c :: nat) < 128"
  proof
    fix c assume "c \<in> set (blake3_hex X s)"
    then have "c \<in> set ''0123456789abcdef''" using assms by (auto simp: digest_is_hex64_def hex_digit_def)
    then show "(of_char c :: nat) < 128" by auto
  qed
  then show ?thesis using assms by (simp add: is_char_boundary_ascii digest_is_hex64_def)
qed

lemma integration_tests:
  assumes "digest_is_hex64 X" and "\<And>m. iter_order (ord m) (stored_traces m)" and "0 \<le> sys" and "sys < 2 ^ 64"
  shows "test_l1_kernel_integration X sys clk" "test_l3_policy_integration X clk"
    "test_l5_knowledge_integration X logging ord clk" "test_erlang_nif_subscribe" "test_erlang_nif_challenge"
proof -
  show "test_l1_kernel_integration X sys clk"
    using assms(3,4)
    by (simp add: test_l1_kernel_integration_def on_kernel_append_def on_kernel_commit_def on_kernel_rotate_def
        Let_def split_beta emit_defs log_push_def get_events_def)
  show "test_l3_policy_integration X clk"
    by (simp add: test_l3_policy_integration_def on_policy_authorize_def Let_def split_beta emit_defs
        log_push_def get_events_def)
  define t where "t = snd (finalize X (add_step X (clk 1) (Retrieve ''L1'' ''test_symbol'' (jmap []))
    (trace_new (clk 0) ''agent_001'' ''verify'' 1)))"
  let ?k = "l5_new\<lparr>l5_manager := store_trace t (l5_manager l5_new)\<rparr>"
  have sym: "extract_symbols t = [''test_symbol'']"
    by (simp add: t_def extract_symbols_def finalize_eq Let_def add_step_def trace_new_def)
  have "is_char_boundary (trace_id t) 16"
    using hex64_boundary [OF assms(1)] by (simp add: t_def finalize_eq Let_def)
  then obtain shown where "store_reasoning_trace logging t l5_new = (Inr shown, ?k)"
    by (cases logging) (auto simp: store_reasoning_trace_def sym Let_def slice_to_def)
  moreover have "t \<in> set (get_traces (ord (l5_manager ?k)) (l5_manager ?k))"
    unfolding set_get_traces [OF assms(2)] by (auto simp: get_trace_def store_trace_def)
  then have "t \<in> set (filter (\<lambda>t. ''test_symbol'' \<in> set (extract_symbols t))
      (get_traces (ord (l5_manager ?k)) (l5_manager ?k)))" by (simp add: sym)
  then have "query_related_traces (ord (l5_manager ?k)) ''test_symbol'' ?k \<noteq> []"
    unfolding query_related_traces_def map_is_Nil_conv by (rule in_set_not_Nil)
  ultimately show "test_l5_knowledge_integration X logging ord clk"
    unfolding test_l5_knowledge_integration_def Let_def t_def [symmetric] by simp
  show "test_erlang_nif_subscribe" "test_erlang_nif_challenge"
    by (simp_all add: test_erlang_nif_subscribe_def test_erlang_nif_challenge_def seb_reasoning_subscribe_eq
        seb_reasoning_challenge_def starts_with_def)
qed

end
