(* ===== verification/Json_Scan.thy ===== *)
theory Json_Scan
  imports Serde
begin

text \<open>
  What JSON text (RFC 8259) looks like to a scanner that follows quotes and brackets: enough of the grammar
  to see that a text cut off in the middle and continued with another object is not JSON. The parser of
  \<open>serde_json\<close> is a parameter; that it accepts JSON only is the hypothesis \<open>parses_json_only\<close>.
\<close>

text \<open>
  Outside a string at a depth of brackets, in a string, after a backslash in a string, after a string,
  after the last bracket, and not JSON.
\<close>

datatype scan = Out nat | Str nat | Esc nat | After nat | Closed | Bad

definition json_space :: "char \<Rightarrow> bool" where
  "json_space c \<longleftrightarrow> c \<in> set [CHR '' '', CHR 0x09, newline, CHR 0x0D]"

definition opens_json :: "char \<Rightarrow> bool" where
  "opens_json c \<longleftrightarrow> c = CHR 0x7B \<or> c = CHR ''[''"

definition closes_json :: "char \<Rightarrow> bool" where
  "closes_json c \<longleftrightarrow> c = CHR 0x7D \<or> c = CHR '']''"

definition close_bracket :: "nat \<Rightarrow> scan" where
  "close_bracket d = (if d = 0 then Bad else if d = 1 then Closed else Out (d - 1))"

fun scan_char :: "scan \<Rightarrow> char \<Rightarrow> scan" where
  "scan_char (Out d) c =
     (if c = CHR 0x22 then Str d else if opens_json c then Out (Suc d)
      else if closes_json c then close_bracket d else if c = CHR 0x5C then Bad else Out d)"
| "scan_char (Str d) c = (if c = CHR 0x22 then After d else if c = CHR 0x5C then Esc d else Str d)"
| "scan_char (Esc d) c = Str d"
| "scan_char (After d) c =
     (if json_space c then After d else if c = CHR '','' \<or> c = CHR '':'' then Out d
      else if closes_json c then close_bracket d else Bad)"
| "scan_char Closed c = (if json_space c then Closed else Bad)"
| "scan_char Bad c = Bad"

definition json_scan :: "scan \<Rightarrow> string \<Rightarrow> scan" where
  "json_scan = foldl scan_char"

lemma json_scan_simps [simp]:
  "json_scan s [] = s" "json_scan s (c # t) = json_scan (scan_char s c) t"
  "json_scan s (t @ u) = json_scan (json_scan s t) u"
  by (simp_all add: json_scan_def)

lemma json_scan_Bad [simp]: "json_scan Bad t = Bad"
  by (induction t) simp_all

text \<open>Where a JSON text may end.\<close>

definition scan_ends :: "scan \<Rightarrow> bool" where
  "scan_ends s \<longleftrightarrow> s \<in> {Out 0, After 0, Closed}"

text \<open>
  Documented behaviour of \<open>serde_json::from_str\<close>: what it accepts is one JSON value, with nothing but white
  space around it.
\<close>

definition parses_json_only :: "extern \<Rightarrow> bool" where
  "parses_json_only X \<longleftrightarrow> (\<forall>t j. json_parse X t = Some j \<longrightarrow> scan_ends (json_scan (Out 0) t))"

text \<open>
  Documented form of the compact text of an object whose first member has a plain name: a brace, the
  quoted name, and in the end all brackets are closed.
\<close>

definition object_text :: "string \<Rightarrow> string \<Rightarrow> bool" where
  "object_text k t \<longleftrightarrow> starts_with t (CHR 0x7B # CHR 0x22 # k) \<and> json_scan (Out 0) t = Closed"

section \<open>A text that is cut off\<close>

text \<open>The same text inside \<open>d\<close> brackets.\<close>

fun deeper :: "nat \<Rightarrow> scan \<Rightarrow> scan" where
  "deeper d (Out n) = Out (n + d)"
| "deeper d (Str n) = Str (n + d)"
| "deeper d (Esc n) = Esc (n + d)"
| "deeper d (After n) = After (n + d)"
| "deeper d Closed = Out d"
| "deeper d Bad = Bad"

lemma deeper_close: "0 < d \<Longrightarrow> close_bracket n \<noteq> Bad \<Longrightarrow> close_bracket (n + d) = deeper d (close_bracket n)"
  by (auto simp: close_bracket_def split: if_splits)

lemma json_space_other:
  "json_space c \<Longrightarrow> c \<noteq> CHR 0x22 \<and> c \<noteq> CHR 0x5C \<and> \<not> opens_json c \<and> \<not> closes_json c"
  by (auto simp: json_space_def opens_json_def closes_json_def newline_def)

lemma deeper_char: "0 < d \<Longrightarrow> scan_char s c \<noteq> Bad \<Longrightarrow> scan_char (deeper d s) c = deeper d (scan_char s c)"
  by (cases s) (auto simp: deeper_close json_space_other split: if_splits)

lemma deeper_scan:
  assumes "0 < d" and "json_scan s t \<noteq> Bad"
  shows "json_scan (deeper d s) t = deeper d (json_scan s t)"
  using assms(2)
proof (induction t arbitrary: s)
  case (Cons c t)
  then have "scan_char s c \<noteq> Bad" by auto
  with Cons show ?case by (simp add: deeper_char [OF assms(1)])
qed simp

text \<open>Once a bracket is open, the scanner is inside one until the last is closed.\<close>

fun inside :: "scan \<Rightarrow> bool" where
  "inside (Out d) \<longleftrightarrow> 0 < d"
| "inside (Str d) \<longleftrightarrow> 0 < d"
| "inside (Esc d) \<longleftrightarrow> 0 < d"
| "inside (After d) \<longleftrightarrow> 0 < d"
| "inside _ \<longleftrightarrow> True"

lemma inside_close: "inside (close_bracket d)"
  by (simp add: close_bracket_def)

lemma inside_scan: "inside s \<Longrightarrow> inside (json_scan s t)"
proof (induction t arbitrary: s)
  case (Cons c t)
  have "inside (scan_char s c)" using Cons.prems by (cases s) (simp_all add: inside_close)
  with Cons.IH show ?case by simp
qed simp

text \<open>The end of an object can not be supplied by another object.\<close>

lemma cut_object_not_json:
  assumes "hd p = CHR 0x7B" and "p \<noteq> []" and "object_text k t" and "k \<noteq> []"
    and "\<not> json_space (hd k)" and "\<not> closes_json (hd k)" and "hd k \<notin> {CHR '','', CHR '':''}"
  shows "\<not> scan_ends (json_scan (Out 0) (p @ t))"
proof -
  obtain q where p: "p = CHR 0x7B # q" using assms(1,2) by (cases p) auto
  obtain c k' where k: "k = c # k'" using assms(4) by (cases k) auto
  obtain r where t: "t = CHR 0x7B # CHR 0x22 # c # r"
    using assms(3) by (auto simp: object_text_def starts_with_iff k)
  have "inside (json_scan (Out 1) q)" by (rule inside_scan) simp
  moreover have "json_scan (Out 0) (p @ t) = json_scan (json_scan (Out 1) q) t"
    by (simp add: p opens_json_def)
  moreover have "\<not> scan_ends (json_scan s t)" if "inside s" for s
  proof (cases s)
    case (Out d)
    with that have d: "0 < d" by simp
    have "json_scan (deeper d (Out 0)) t = Out d"
      using assms(3) by (subst deeper_scan [OF d]) (simp_all add: object_text_def)
    with Out d show ?thesis by (simp add: scan_ends_def)
  qed (use assms(5-7) in \<open>simp_all add: t k scan_ends_def json_space_def closes_json_def newline_def\<close>)
  ultimately show ?thesis by simp
qed

end
