(* ===== verification/Audit_Log.thy ===== *)
theory Audit_Log
  imports Json_Scan
begin

text \<open>
  \<open>seb/human_touch/src/audit_log.rs\<close>: the audit log, one JSON line per entry in a file that is only
  appended to. The state is the content of the file, \<open>None\<close> when there is none. What the operating
  system does is an argument of every operation that writes: it can fail when the file is opened,
  after some bytes, or at the flush. The lock of the log makes each operation atomic. The text of an error that
  the operating system reports is not modelled; the name of the failing call stands for it.
\<close>

section \<open>Data\<close>

text \<open>The change under review (\<open>review_queue.rs\<close>), and an entry of the log.\<close>

record pending_change =
  ch_id :: string
  ch_description :: string
  ch_evidence :: string
  ch_agent_name :: string
  ch_created_at :: timestamp
  ch_files :: "string list"
  ch_diff :: string

record audit_entry =
  ae_timestamp :: string
  ae_event_type :: string
  ae_change_id :: string
  ae_agent_name :: string
  ae_reviewer :: "string option"
  ae_decision :: string
  ae_reason :: "string option"
  ae_commit_hash :: "string option"
  ae_evidence_url :: "string option"

definition entry_to_json :: "audit_entry \<Rightarrow> json" where
  "entry_to_json e =
     JObj [(''timestamp'', JStr (ae_timestamp e)), (''event_type'', JStr (ae_event_type e)),
           (''change_id'', JStr (ae_change_id e)), (''agent_name'', JStr (ae_agent_name e)),
           (''reviewer'', jopt (ae_reviewer e)), (''decision'', JStr (ae_decision e)),
           (''reason'', jopt (ae_reason e)), (''commit_hash'', jopt (ae_commit_hash e)),
           (''evidence_url'', jopt (ae_evidence_url e))]"

section \<open>Writing\<close>

datatype io_outcome = IoOk | DirFails | OpenFails | WriteFails nat | SyncFails

type_synonym audit_file = "string option"

text \<open>Open in append mode, write all of a text, flush. A failed write leaves the bytes written so far.\<close>

fun append_text :: "io_outcome \<Rightarrow> string \<Rightarrow> audit_file \<Rightarrow> unit res \<times> audit_file" where
  "append_text io txt None = (Inl (Err ''open''), None)"
| "append_text IoOk txt (Some c) = (Inr (), Some (c @ txt))"
| "append_text DirFails txt (Some c) = (Inr (), Some (c @ txt))"
| "append_text OpenFails txt (Some c) = (Inl (Err ''open''), Some c)"
| "append_text (WriteFails n) txt (Some c) = (Inl (Err ''write''), Some (c @ take n txt))"
| "append_text SyncFails txt (Some c) = (Inl (Err ''sync''), Some (c @ txt))"

definition audit_header :: "extern \<Rightarrow> timestamp \<Rightarrow> json" where
  "audit_header X now =
     jmap [(''version'', JStr ''1.0.0''), (''type'', JStr ''WORM_AUDIT_LOG''),
           (''created_at'', JStr (rfc3339_secs X now)), (''entries'', JArr [])]"

definition audit_new :: "extern \<Rightarrow> timestamp \<Rightarrow> io_outcome \<Rightarrow> audit_file \<Rightarrow> unit res \<times> audit_file" where
  "audit_new X now io f =
     (if io = DirFails then (Inl (Err ''create_dir_all''), f)
      else case f of
        Some c \<Rightarrow> (Inr (), Some c)
      | None \<Rightarrow>
          (if io = OpenFails then (Inl (Err ''open''), None)
           else append_text io (json_text X (audit_header X now) @ [newline]) (Some [])))"

definition append_entry ::
    "extern \<Rightarrow> io_outcome \<Rightarrow> audit_entry \<Rightarrow> audit_file \<Rightarrow> unit res \<times> audit_file" where
  "append_entry X io e f = append_text io (json_text X (entry_to_json e) @ [newline]) f"

definition submitted_entry :: "extern \<Rightarrow> timestamp \<Rightarrow> pending_change \<Rightarrow> audit_entry" where
  "submitted_entry X now c =
     \<lparr>ae_timestamp = rfc3339_millis X now, ae_event_type = ''CHANGE_SUBMITTED'',
      ae_change_id = ch_id c, ae_agent_name = ch_agent_name c, ae_reviewer = None,
      ae_decision = ''AWAITING_REVIEW'', ae_reason = None, ae_commit_hash = None,
      ae_evidence_url = Some (ch_evidence c)\<rparr>"

definition log_submitted ::
    "extern \<Rightarrow> timestamp \<Rightarrow> io_outcome \<Rightarrow> pending_change \<Rightarrow> audit_file \<Rightarrow> unit res \<times> audit_file" where
  "log_submitted X now io c f = append_entry X io (submitted_entry X now c) f"

definition approval_entry :: "extern \<Rightarrow> timestamp \<Rightarrow> string \<Rightarrow> string \<Rightarrow> string \<Rightarrow> audit_entry" where
  "approval_entry X now cid reviewer descr =
     \<lparr>ae_timestamp = rfc3339_millis X now, ae_event_type = ''CHANGE_APPROVED'',
      ae_change_id = cid, ae_agent_name = ''human-touch'', ae_reviewer = Some reviewer,
      ae_decision = ''APPROVED'', ae_reason = Some (''Human approval granted: '' @ descr),
      ae_commit_hash = None, ae_evidence_url = None\<rparr>"

definition log_approval ::
    "extern \<Rightarrow> timestamp \<Rightarrow> io_outcome \<Rightarrow> string \<Rightarrow> string \<Rightarrow> string \<Rightarrow> audit_file \<Rightarrow>
     unit res \<times> audit_file" where
  "log_approval X now io cid reviewer descr f =
     append_entry X io (approval_entry X now cid reviewer descr) f"

definition rejection_entry :: "extern \<Rightarrow> timestamp \<Rightarrow> string \<Rightarrow> string \<Rightarrow> string \<Rightarrow> audit_entry" where
  "rejection_entry X now cid why reviewer =
     \<lparr>ae_timestamp = rfc3339_millis X now, ae_event_type = ''CHANGE_REJECTED'',
      ae_change_id = cid, ae_agent_name = ''human-touch'', ae_reviewer = Some reviewer,
      ae_decision = ''REJECTED'', ae_reason = Some why, ae_commit_hash = None,
      ae_evidence_url = None\<rparr>"

definition log_rejection ::
    "extern \<Rightarrow> timestamp \<Rightarrow> io_outcome \<Rightarrow> string \<Rightarrow> string \<Rightarrow> string \<Rightarrow> audit_file \<Rightarrow>
     unit res \<times> audit_file" where
  "log_rejection X now io cid why reviewer f =
     append_entry X io (rejection_entry X now cid why reviewer) f"

definition commit_entry :: "extern \<Rightarrow> timestamp \<Rightarrow> string \<Rightarrow> string \<Rightarrow> string \<Rightarrow> audit_entry" where
  "commit_entry X now cid hash reviewer =
     \<lparr>ae_timestamp = rfc3339_millis X now, ae_event_type = ''CHANGE_COMMITTED'',
      ae_change_id = cid, ae_agent_name = ''human-touch'', ae_reviewer = Some reviewer,
      ae_decision = ''COMMITTED'', ae_reason = None, ae_commit_hash = Some hash,
      ae_evidence_url = None\<rparr>"

definition log_commit ::
    "extern \<Rightarrow> timestamp \<Rightarrow> io_outcome \<Rightarrow> string \<Rightarrow> string \<Rightarrow> string \<Rightarrow> audit_file \<Rightarrow>
     unit res \<times> audit_file" where
  "log_commit X now io cid hash reviewer f =
     append_entry X io (commit_entry X now cid hash reviewer) f"

section \<open>Reading\<close>

text \<open>\<open>serde_json::from_str::<AuditEntry>\<close>. A line taken for the header is skipped.\<close>

definition entry_from_json :: "json \<Rightarrow> audit_entry option" where
  "entry_from_json j = do {
     ms \<leftarrow> obj_fields
       [''timestamp'', ''event_type'', ''change_id'', ''agent_name'', ''reviewer'', ''decision'', ''reason'',
        ''commit_hash'', ''evidence_url''] 9 j;
     ts \<leftarrow> required ms ''timestamp'' from_string;
     ty \<leftarrow> required ms ''event_type'' from_string;
     cid \<leftarrow> required ms ''change_id'' from_string;
     ag \<leftarrow> required ms ''agent_name'' from_string;
     rv \<leftarrow> optional ms ''reviewer'' from_string;
     dc \<leftarrow> required ms ''decision'' from_string;
     rs \<leftarrow> optional ms ''reason'' from_string;
     ch \<leftarrow> optional ms ''commit_hash'' from_string;
     ev \<leftarrow> optional ms ''evidence_url'' from_string;
     Some \<lparr>ae_timestamp = ts, ae_event_type = ty, ae_change_id = cid, ae_agent_name = ag,
           ae_reviewer = rv, ae_decision = dc, ae_reason = rs, ae_commit_hash = ch,
           ae_evidence_url = ev\<rparr> }"

definition parse_entry :: "extern \<Rightarrow> string \<Rightarrow> audit_entry option" where
  "parse_entry X l = Option.bind (json_parse X l) entry_from_json"

interpretation entry_json: json_codec entry_to_json entry_from_json "\<lambda>_. True"
  by unfold_locales (simp add: entry_from_json_def entry_to_json_def obj_fields_def serde_defs)

lemma parse_entry_text: "reads_back X (entry_to_json e) \<Longrightarrow> parse_entry X (json_text X (entry_to_json e)) = Some e"
  by (simp add: parse_entry_def reads_back_def entry_json.rd_wr)

definition header_like :: "string \<Rightarrow> bool" where
  "header_like l \<longleftrightarrow> str_contains l (dq @ ''version'' @ dq) \<or> str_contains l (dq @ ''type'' @ dq)"

fun read_lines :: "extern \<Rightarrow> string list \<Rightarrow> audit_entry list" where
  "read_lines X [] = []"
| "read_lines X (l # ls) =
     (if header_like l then read_lines X ls
      else if trim l = [] then read_lines X ls
      else case parse_entry X l of
             Some e \<Rightarrow> e # read_lines X ls
           | None \<Rightarrow> read_lines X ls)"

definition read_entries :: "extern \<Rightarrow> audit_file \<Rightarrow> audit_entry list res" where
  "read_entries X f =
     (case f of None \<Rightarrow> Inl (Err ''read'')
      | Some c \<Rightarrow> if utf8_valid c then Inr (read_lines X (lines c)) else Inl (Err ''read''))"

record audit_summary =
  total_events :: nat
  changes_submitted :: nat
  changes_approved :: nat
  changes_rejected :: nat
  changes_committed :: nat
  reviewers :: "(string, nat) fmap"

definition summary_default :: audit_summary where
  "summary_default =
     \<lparr>total_events = 0, changes_submitted = 0, changes_approved = 0, changes_rejected = 0,
      changes_committed = 0, reviewers = fmempty\<rparr>"

definition count_entry :: "audit_entry \<Rightarrow> audit_summary \<Rightarrow> audit_summary" where
  "count_entry e s =
     (let s1 = s\<lparr>total_events := total_events s + 1\<rparr>;
          s2 =
            (if ae_event_type e = ''CHANGE_SUBMITTED''
             then s1\<lparr>changes_submitted := changes_submitted s1 + 1\<rparr>
             else if ae_event_type e = ''CHANGE_APPROVED''
             then s1\<lparr>changes_approved := changes_approved s1 + 1\<rparr>
             else if ae_event_type e = ''CHANGE_REJECTED''
             then s1\<lparr>changes_rejected := changes_rejected s1 + 1\<rparr>
             else if ae_event_type e = ''CHANGE_COMMITTED''
             then s1\<lparr>changes_committed := changes_committed s1 + 1\<rparr>
             else s1)
      in case ae_reviewer e of None \<Rightarrow> s2
         | Some r \<Rightarrow> s2\<lparr>reviewers :=
             fmupd r ((case fmlookup (reviewers s2) r of None \<Rightarrow> 0 | Some n \<Rightarrow> n) + 1) (reviewers s2)\<rparr>)"

definition generate_summary :: "extern \<Rightarrow> audit_file \<Rightarrow> audit_summary res" where
  "generate_summary X f =
     res_bind (read_entries X f) (\<lambda>es. Inr (fold count_entry es summary_default))"

section \<open>Facts about UTF-8\<close>

lemma utf8_tail_append: "utf8_tail rs s = Some r \<Longrightarrow> utf8_tail rs (s @ t) = Some (r @ t)"
  by (induction rs s rule: utf8_tail.induct) (auto split: if_splits)

lemma utf8_valid_append: "utf8_valid a \<Longrightarrow> utf8_valid (a @ b) \<longleftrightarrow> utf8_valid b"
proof (induction a rule: utf8_valid.induct)
  case (2 c s)
  then show ?case by (auto simp: utf8_tail_append split: option.splits)
qed simp

lemma utf8_tail_cut:
  assumes "utf8_tail rs (s @ c # b) = Some r" and "\<not> is_continuation c"
    and "\<forall>(lo, hi) \<in> set rs. 128 \<le> lo \<and> hi < 192"
  shows "\<exists>r'. utf8_tail rs s = Some r' \<and> r = r' @ c # b"
  using assms
proof (induction rs s rule: utf8_tail.induct)
  case (2 lo hi rs)
  then show ?case by (auto simp: byte_in_def is_continuation_def split: if_splits)
qed (auto split: if_splits)

lemma utf8_follow_range: "utf8_follow c = Some rs \<Longrightarrow> \<forall>(lo, hi) \<in> set rs. 128 \<le> lo \<and> hi < 192"
  by (auto simp: utf8_follow_def Let_def split: if_splits)

text \<open>A byte that continues no character starts one, so what stands before it is complete.\<close>

lemma utf8_valid_cut: "utf8_valid (a @ c # b) \<Longrightarrow> \<not> is_continuation c \<Longrightarrow> utf8_valid a"
proof (induction "length a" arbitrary: a rule: less_induct)
  case less
  show ?case
  proof (cases a)
    case (Cons x s)
    with less.prems(1) obtain rs r where rs: "utf8_follow x = Some rs"
      and r: "utf8_tail rs (s @ c # b) = Some r" "utf8_valid r"
      by (auto split: option.splits)
    from utf8_tail_cut [OF r(1) less.prems(2) utf8_follow_range [OF rs]]
    obtain r' where r': "utf8_tail rs s = Some r'" "r = r' @ c # b" by blast
    have "length r' < length a" using utf8_tail_length [OF r'(1)] Cons by simp
    then have "utf8_valid r'" using less.hyps r(2) r'(2) less.prems(2) by blast
    with Cons rs r'(1) show ?thesis by simp
  qed simp
qed

lemma utf8_follow_continuation: "is_continuation c \<Longrightarrow> utf8_follow c = None"
  by (auto simp: utf8_follow_def is_continuation_def byte_in_def Let_def)

lemma utf8_valid_continuation: "is_continuation c \<Longrightarrow> \<not> utf8_valid (c # s)"
  by (simp add: utf8_follow_continuation)

lemma utf8_valid_take_iff:
  assumes "utf8_valid s" and "n < length s"
  shows "utf8_valid (take n s) \<longleftrightarrow> is_char_boundary s n"
proof -
  have s: "take n s @ s ! n # drop (Suc n) s = s" using assms(2) by (simp add: id_take_nth_drop [symmetric])
  have "utf8_valid (take n s)" if "\<not> is_continuation (s ! n)"
    using utf8_valid_cut [of "take n s" "s ! n" "drop (Suc n) s", unfolded s] that assms(1) by blast
  moreover have "\<not> is_continuation (s ! n)" if "utf8_valid (take n s)"
    using utf8_valid_append [OF that, of "s ! n # drop (Suc n) s"] assms(1) utf8_valid_continuation
    by (metis s)
  ultimately show ?thesis using assms(2) by (cases "n = 0") (auto simp: is_char_boundary_def)
qed

section \<open>What the code relies on of the text of an object\<close>

text \<open>
  Documented behaviour of \<open>serde_json\<close>'s compact output, for an object with the given members: it is
  one line of UTF-8 without control characters that starts with a brace, and a member name or a
  string value without characters to escape stands in it in double quotes.
\<close>

definition plain :: "string \<Rightarrow> bool" where
  "plain s \<longleftrightarrow> (\<forall>c \<in> set s. 32 \<le> (of_char c :: nat) \<and> c \<noteq> CHR 0x22 \<and> c \<noteq> CHR 0x5C)"

definition text_documented :: "extern \<Rightarrow> (string \<times> json) list \<Rightarrow> bool" where
  "text_documented X ms \<longleftrightarrow>
     (let t = json_text X (JObj ms) in
      utf8_valid t \<and> t \<noteq> [] \<and> hd t = CHR 0x7B \<and> (\<forall>c \<in> set t. 32 \<le> (of_char c :: nat)) \<and>
      (\<forall>(k, v) \<in> set ms. (plain k \<longrightarrow> str_contains t (dq @ k @ dq)) \<and>
         (case v of JStr s \<Rightarrow> plain s \<longrightarrow> str_contains t (dq @ s @ dq) | _ \<Rightarrow> True)))"

abbreviation entry_text :: "extern \<Rightarrow> audit_entry \<Rightarrow> string" where
  "entry_text X e \<equiv> json_text X (entry_to_json e)"

definition entry_documented :: "extern \<Rightarrow> audit_entry \<Rightarrow> bool" where
  "entry_documented X e \<longleftrightarrow> text_documented X (members (entry_to_json e))"

lemma entry_documentedD:
  assumes "entry_documented X e"
  shows "utf8_valid (entry_text X e)" and "\<exists>r. entry_text X e = CHR 0x7B # r"
    and "newline \<notin> set (entry_text X e)" and "CHR 0x0D \<notin> set (entry_text X e)"
proof -
  from assms have t: "utf8_valid (entry_text X e)" "entry_text X e \<noteq> []" "hd (entry_text X e) = CHR 0x7B"
    "\<forall>c \<in> set (entry_text X e). 32 \<le> (of_char c :: nat)"
    unfolding entry_documented_def text_documented_def Let_def
    by (simp_all add: entry_to_json_def)
  show "utf8_valid (entry_text X e)" by (rule t(1))
  show "\<exists>r. entry_text X e = CHR 0x7B # r" using t(2,3) by (cases "entry_text X e") simp_all
  have "(of_char c :: nat) < 32 \<Longrightarrow> c \<notin> set (entry_text X e)" for c using t(4) by force
  from this [of newline] this [of "CHR 0x0D"]
  show "newline \<notin> set (entry_text X e)" and "CHR 0x0D \<notin> set (entry_text X e)"
    by (simp_all add: newline_def)
qed

text \<open>A log whose lines are complete.\<close>

definition log_ok :: "string \<Rightarrow> bool" where
  "log_ok c \<longleftrightarrow> utf8_valid c \<and> (c = [] \<or> last c = newline)"

lemma utf8_follow_newline [simp]: "utf8_follow newline = Some []"
  by (simp add: newline_def utf8_follow_def Let_def byte_in_def)

lemma lines_text: "newline \<notin> set t \<Longrightarrow> CHR 0x0D \<notin> set t \<Longrightarrow> lines (t @ [newline]) = [t]"
  using lines_cons [of t "[]"] by (auto simp: strip_cr_def) (metis last_in_set)

lemma append_ok:
  assumes "log_ok c" and "entry_documented X e"
  shows "append_entry X IoOk e (Some c) = (Inr (), Some (c @ entry_text X e @ [newline]))"
    and "log_ok (c @ entry_text X e @ [newline])"
    and "lines (c @ entry_text X e @ [newline]) = lines c @ [entry_text X e]"
  using assms entry_documentedD [OF assms(2)]
  by (simp_all add: append_entry_def log_ok_def utf8_valid_append lines_append lines_text)

definition write_all :: "extern \<Rightarrow> audit_entry list \<Rightarrow> audit_file \<Rightarrow> audit_file" where
  "write_all X es f = fold (\<lambda>e f. snd (append_entry X IoOk e f)) es f"

lemma write_all_ok:
  assumes "log_ok c" and "\<forall>e \<in> set es. entry_documented X e"
  shows "\<exists>c'. write_all X es (Some c) = Some c' \<and> log_ok c' \<and> lines c' = lines c @ map (entry_text X) es"
  using assms
proof (induction es arbitrary: c)
  case Nil
  then show ?case by (simp add: write_all_def)
next
  case (Cons e es)
  from Cons.prems have e: "entry_documented X e" by simp
  note ok = append_ok [OF Cons.prems(1) e]
  have "\<exists>c'. write_all X es (Some (c @ entry_text X e @ [newline])) = Some c' \<and> log_ok c' \<and>
      lines c' = lines (c @ entry_text X e @ [newline]) @ map (entry_text X) es"
    using Cons.prems by (intro Cons.IH ok(2)) simp
  then show ?case unfolding ok(3) by (simp add: write_all_def ok(1))
qed

lemma write_all_text: "write_all X es (Some c) = Some (c @ concat (map (\<lambda>e. entry_text X e @ [newline]) es))"
  by (induction es arbitrary: c) (simp_all add: write_all_def append_entry_def)

lemma read_lines_append: "read_lines X (ls @ ls') = read_lines X ls @ read_lines X ls'"
  by (induction ls) (auto split: option.splits)

lemma trim_entry_text: "entry_documented X e \<Longrightarrow> trim (entry_text X e) \<noteq> []"
  using trim_keeps [of "CHR 0x7B" "entry_text X e"] entry_documentedD(2) [of X e]
  by (auto simp: space_bytes_def white_space_def)

lemma read_lines_entries:
  assumes "\<forall>e \<in> set es. entry_documented X e \<and> reads_back X (entry_to_json e)"
  shows "read_lines X (map (entry_text X) es) = filter (\<lambda>e. \<not> header_like (entry_text X e)) es"
  using assms by (induction es) (simp_all add: trim_entry_text parse_entry_text)

section \<open>An instance\<close>

text \<open>A printer with the documented behaviour, for the witnesses (numbers print as integers).\<close>

definition jescape :: "char \<Rightarrow> string" where
  "jescape c =
     (if c = CHR 0x22 then [CHR 0x5C, CHR 0x22] else if c = CHR 0x5C then [CHR 0x5C, CHR 0x5C]
      else if (of_char c :: nat) < 32 then CHR 0x5C # ''u'' @ pad_zero 4 (show_nat (of_char c)) else [c])"

definition jquote :: "string \<Rightarrow> string" where
  "jquote s = dq @ concat (map jescape s) @ dq"

fun jtext :: "json \<Rightarrow> string" where
  "jtext JNull = ''null''"
| "jtext (JBool b) = (if b then ''true'' else ''false'')"
| "jtext (JInt i) = show_int i"
| "jtext (JFloat f) = show_int (fl_to_i32 f)"
| "jtext (JStr s) = jquote s"
| "jtext (JArr xs) = ''['' @ str_join '','' (map jtext xs) @ '']''"
| "jtext (JObj ms) =
     CHR 0x7B # str_join '','' (map (\<lambda>(k, v). jquote k @ '':'' @ jtext v) ms) @ [CHR 0x7D]"

definition json_extern :: extern where
  "json_extern = demo_extern\<lparr>json_text := jtext, rfc3339_secs := (\<lambda>t. ''now''), rfc3339_millis := (\<lambda>t. ''now'')\<rparr>"

definition demo_rejection :: "string \<Rightarrow> audit_entry" where
  "demo_rejection cid = rejection_entry json_extern 0 cid ''no'' ''human''"

lemmas jtext_simps =
  json_extern_def demo_rejection_def rejection_entry_def entry_to_json_def jopt_def jquote_def jescape_def

text \<open>It behaves as documented on flat objects of plain ASCII strings.\<close>

definition ascii_plain :: "string \<Rightarrow> bool" where
  "ascii_plain s \<longleftrightarrow> (\<forall>c \<in> set s. 32 \<le> (of_char c :: nat) \<and> (of_char c :: nat) < 128 \<and>
      c \<noteq> CHR 0x22 \<and> c \<noteq> CHR 0x5C)"

definition visible :: "string \<Rightarrow> bool" where
  "visible s \<longleftrightarrow> (\<forall>c \<in> set s. 32 \<le> (of_char c :: nat) \<and> (of_char c :: nat) < 128)"

lemma visible_simps [simp]:
  "visible []" "visible (c # s) \<longleftrightarrow> 32 \<le> (of_char c :: nat) \<and> (of_char c :: nat) < 128 \<and> visible s"
  "visible (s @ t) \<longleftrightarrow> visible s \<and> visible t"
  by (auto simp: visible_def)

lemma visible_utf8: "visible s \<Longrightarrow> utf8_valid s"
  by (induction s) (simp_all add: utf8_follow_def byte_in_def Let_def)

lemma jquote_plain: "ascii_plain s \<Longrightarrow> jquote s = dq @ s @ dq"
proof -
  assume "ascii_plain s"
  then have "concat (map jescape s) = s"
    by (induction s) (simp_all add: ascii_plain_def jescape_def)
  then show ?thesis by (simp add: jquote_def)
qed

lemma visible_jquote: "ascii_plain s \<Longrightarrow> visible (jquote s)"
  by (simp add: jquote_plain dq_def) (simp add: visible_def ascii_plain_def)

lemma visible_join: "visible sep \<Longrightarrow> \<forall>x \<in> set xs. visible x \<Longrightarrow> visible (str_join sep xs)"
  by (induction sep xs rule: str_join.induct) simp_all

lemma sublist_join: "x \<in> set xs \<Longrightarrow> sublist x (str_join sep xs)"
proof (induction sep xs rule: str_join.induct)
  case (3 sep y z zs)
  show ?case
  proof (cases "x = y")
    case True
    then show ?thesis by simp
  next
    case False
    with 3 obtain a b where "str_join sep (z # zs) = a @ x @ b" by (auto simp: sublist_def)
    then have "str_join sep (y # z # zs) = (y @ sep @ a) @ x @ b" by simp
    then show ?thesis unfolding sublist_def by blast
  qed
qed auto

lemma sublist_infix: "sublist (a @ x @ b) t \<Longrightarrow> sublist x t"
  by (rule sublist_order.order_trans [of _ "a @ x @ b"]) simp_all

fun flat_value :: "json \<Rightarrow> bool" where
  "flat_value (JStr s) = ascii_plain s"
| "flat_value JNull = True"
| "flat_value (JArr xs) = (xs = [])"
| "flat_value _ = False"

lemma json_extern_documented:
  assumes "\<forall>(k, v) \<in> set ms. ascii_plain k \<and> flat_value v"
  shows "text_documented json_extern ms"
proof -
  let ?f = "\<lambda>(k, v). jquote k @ '':'' @ jtext v"
  let ?t = "jtext (JObj ms)"
  have vv: "visible (jtext v)" if "flat_value v" for v
    using that by (cases v) (simp_all add: visible_jquote)
  have "visible (str_join '','' (map ?f ms))"
    using assms vv by (intro visible_join) (auto simp: visible_jquote)
  then have vis: "visible ?t" by simp
  have sub: "sublist (jquote k @ '':'' @ jtext v) ?t" if "(k, v) \<in> set ms" for k v
  proof -
    have "sublist (?f (k, v)) (str_join '','' (map ?f ms))" using that by (intro sublist_join) force
    then have "sublist (?f (k, v)) ([CHR 0x7B] @ str_join '','' (map ?f ms) @ [CHR 0x7D])"
      by (rule sublist_order.order_trans) (rule sublist_appendI)
    then show ?thesis by simp
  qed
  have "str_contains ?t (dq @ k @ dq)" if kv: "(k, v) \<in> set ms" for k v
  proof -
    from kv assms have "ascii_plain k" by auto
    then have "sublist ([] @ (dq @ k @ dq) @ '':'' @ jtext v) ?t" using sub [OF kv] by (simp only: jquote_plain append_Nil append_assoc)
    then show ?thesis unfolding str_contains_iff by (rule sublist_infix)
  qed
  moreover have "str_contains ?t (dq @ s @ dq)" if kv: "(k, JStr s) \<in> set ms" for k s
  proof -
    from kv assms have "ascii_plain k" "ascii_plain s" by auto
    then have "sublist ((dq @ k @ dq @ '':'') @ (dq @ s @ dq) @ []) ?t"
      using sub [OF kv] by (simp only: jquote_plain append_Nil2 append_assoc jtext.simps)
    then show ?thesis unfolding str_contains_iff by (rule sublist_infix)
  qed
  ultimately show ?thesis
    using visible_utf8 [OF vis] vis
    unfolding text_documented_def json_extern_def
    by (auto simp: visible_def Let_def split: json.splits)
qed

lemma demo_rejection_documented:
  "entry_documented json_extern (demo_rejection ''c1'')"
  "entry_documented json_extern (demo_rejection ''type'')"
  "entry_documented json_extern (demo_rejection ''c2'')"
  unfolding entry_documented_def
  by (rule json_extern_documented;
      simp add: entry_to_json_def demo_rejection_def rejection_entry_def jopt_def ascii_plain_def json_extern_def)+

lemma demo_header_documented: "text_documented json_extern (members (audit_header json_extern 0))"
  by (rule json_extern_documented) (simp add: audit_header_def jmap_def ascii_plain_def json_extern_def)

text \<open>The same with a parser that knows the text of one tree.\<close>

definition parse_extern :: "json \<Rightarrow> extern" where
  "parse_extern j = json_extern\<lparr>json_parse := (\<lambda>s. if s = jtext j then Some j else None)\<rparr>"

lemma parse_extern_simps [simp]:
  "json_text (parse_extern j) = json_text json_extern"
  "rfc3339_secs (parse_extern j) = rfc3339_secs json_extern"
  "rfc3339_millis (parse_extern j) = rfc3339_millis json_extern"
  "reads_back (parse_extern j) j"
  by (simp_all add: parse_extern_def reads_back_def json_extern_def)

lemma parse_extern_documented [simp]:
  "text_documented (parse_extern j) ms \<longleftrightarrow> text_documented json_extern ms"
  "entry_documented (parse_extern j) e \<longleftrightarrow> entry_documented json_extern e"
  "audit_header (parse_extern j) now = audit_header json_extern now"
  "rejection_entry (parse_extern j) = rejection_entry json_extern"
  "submitted_entry (parse_extern j) = submitted_entry json_extern"
  by (simp_all add: text_documented_def entry_documented_def audit_header_def rejection_entry_def submitted_entry_def
      fun_eq_iff)

section \<open>Reading what was written\<close>

lemma read_written:
  assumes "text_documented X (members (audit_header X now))"
    and "\<forall>e \<in> set es. entry_documented X e \<and> reads_back X (entry_to_json e)"
  shows "read_entries X (write_all X es (snd (audit_new X now IoOk None))) =
    Inr (filter (\<lambda>e. \<not> header_like (entry_text X e)) es)"
proof -
  let ?h = "json_text X (audit_header X now)"
  obtain ms where ms: "audit_header X now = JObj ms" by (simp add: audit_header_def jmap_def)
  have mem: "(''version'', JStr ''1.0.0'') \<in> set ms"
    using ms by (auto simp: audit_header_def jmap_def)
  have plain: "plain ''version''" by (simp add: plain_def)
  from assms(1) have t: "utf8_valid ?h" "\<forall>c \<in> set ?h. 32 \<le> (of_char c :: nat)"
    "str_contains ?h (dq @ ''version'' @ dq)"
    using mem plain unfolding ms text_documented_def Let_def by (simp_all, fastforce)
  have "(of_char c :: nat) < 32 \<Longrightarrow> c \<notin> set ?h" for c using t(2) by force
  from this [of newline] this [of "CHR 0x0D"] have nl: "newline \<notin> set ?h" "CHR 0x0D \<notin> set ?h"
    by (simp_all add: newline_def)
  have new: "snd (audit_new X now IoOk None) = Some (?h @ [newline])" by (simp add: audit_new_def)
  have ok: "log_ok (?h @ [newline])" using t(1) by (simp add: log_ok_def utf8_valid_append)
  obtain c where c: "write_all X es (Some (?h @ [newline])) = Some c" "log_ok c"
    "lines c = lines (?h @ [newline]) @ map (entry_text X) es"
    using write_all_ok [OF ok] assms(2) by blast
  have "read_lines X (lines c) = read_lines X (map (entry_text X) es)"
    using t(3) by (simp add: c(3) lines_text [OF nl] header_like_def)
  then show ?thesis
    using c(1,2) read_lines_entries [OF assms(2)] by (simp add: new read_entries_def log_ok_def)
qed

section \<open>Properties\<close>

lemma append_entry_Some:
  "\<exists>n. snd (append_entry X io e (Some c)) = Some (c @ take n (entry_text X e @ [newline])) \<and>
     (fst (append_entry X io e (Some c)) = Inr () \<longrightarrow> n = length (entry_text X e @ [newline]))"
proof (cases io)
  case OpenFails
  then show ?thesis by (intro exI [of _ 0]) (simp add: append_entry_def)
next
  case (WriteFails n)
  then show ?thesis by (intro exI [of _ n]) (simp add: append_entry_def)
qed (auto intro!: exI [of _ "length (entry_text X e @ [newline])"] simp: append_entry_def)

lemma append_entry_extends: "\<exists>t. snd (append_entry X io e (Some c)) = Some (c @ t)"
  using append_entry_Some by blast

lemma append_entries_extend: "\<exists>t. fold (\<lambda>(io, e) f. snd (append_entry X io e f)) ws (Some c) = Some (c @ t)"
proof (induction ws arbitrary: c)
  case (Cons w ws)
  obtain io e where w: "w = (io, e)" by fastforce
  obtain t where "snd (append_entry X io e (Some c)) = Some (c @ t)" using append_entry_extends by blast
  with Cons.IH [of "c @ t"] show ?case by (auto simp: w)
qed simp

text \<open>
  C4: write once. Whatever the operating system does, opening an existing log changes nothing and every
  sequence of appends only extends the content. One append adds a beginning of the line of its entry,
  and the whole line when it reports success.
\<close>

theorem audit_log_worm:
  "snd (audit_new X now io (Some c)) = Some c \<and>
   (\<exists>t. fold (\<lambda>(io, e) f. snd (append_entry X io e f)) ws (Some c) = Some (c @ t)) \<and>
   (\<exists>n. snd (append_entry X io e (Some c)) = Some (c @ take n (entry_text X e @ [newline])) \<and>
      (fst (append_entry X io e (Some c)) = Inr () \<longrightarrow> n = length (entry_text X e @ [newline])))"
  using append_entry_Some append_entries_extend by (simp add: audit_new_def)

theorem audit_log_worm_witness:
  "\<exists>n. snd (append_entry json_extern (WriteFails 3) (demo_rejection ''c1'') (Some ''old'')) =
     Some (''old'' @ take n (entry_text json_extern (demo_rejection ''c1'') @ [newline]))"
  using audit_log_worm [of json_extern 0 "WriteFails 3" "''old''" "[]" "demo_rejection ''c1''"] by blast

text \<open>
  C5: the round trip. Entries written without fault to a new log are read back, all and in order,
  except for those whose line looks like the header.
\<close>

theorem audit_roundtrip:
  assumes "text_documented X (members (audit_header X now))"
    and "\<forall>e \<in> set es. entry_documented X e \<and> reads_back X (entry_to_json e)"
  shows "read_entries X (write_all X es (snd (audit_new X now IoOk None))) =
    Inr (filter (\<lambda>e. \<not> header_like (entry_text X e)) es)"
  using assms by (rule read_written)

theorem audit_roundtrip_witness:
  "read_entries (parse_extern (entry_to_json (demo_rejection ''c1'')))
     (write_all (parse_extern (entry_to_json (demo_rejection ''c1''))) [demo_rejection ''c1'']
       (snd (audit_new (parse_extern (entry_to_json (demo_rejection ''c1''))) 0 IoOk None))) =
   Inr (filter (\<lambda>e. \<not> header_like (entry_text (parse_extern (entry_to_json (demo_rejection ''c1''))) e))
     [demo_rejection ''c1''])"
  by (rule audit_roundtrip) (simp_all add: demo_header_documented demo_rejection_documented)

text \<open>
  A decision can be lost silently. For a change with the identifier \<open>type\<close> or \<open>version\<close> the log
  reports that the rejection was written, and reading the log gives what it gave before.
\<close>

lemma audit_entry_lost:
  assumes "log_ok c" and "cid = ''type'' \<or> cid = ''version''"
    and "entry_documented X (rejection_entry X now cid why reviewer)"
  shows "fst (log_rejection X now IoOk cid why reviewer (Some c)) = Inr () \<and>
    read_entries X (snd (log_rejection X now IoOk cid why reviewer (Some c))) =
      read_entries X (Some c)"
proof -
  let ?e = "rejection_entry X now cid why reviewer"
  have mem: "(''change_id'', JStr cid) \<in> set (members (entry_to_json ?e))"
    by (simp add: entry_to_json_def rejection_entry_def)
  have "plain cid" using assms(2) by (auto simp: plain_def)
  moreover have "JObj (members (entry_to_json ?e)) = entry_to_json ?e" by (simp add: entry_to_json_def)
  ultimately have "str_contains (entry_text X ?e) (dq @ cid @ dq)"
    using assms(3) mem unfolding entry_documented_def text_documented_def Let_def by fastforce
  then have "header_like (entry_text X ?e)" using assms(2) by (auto simp: header_like_def)
  then have "read_lines X (lines c @ [entry_text X ?e]) = read_lines X (lines c)"
    by (simp add: read_lines_append)
  with append_ok [OF assms(1,3)] assms(1) show ?thesis
    by (simp add: log_rejection_def read_entries_def log_ok_def)
qed

lemma audit_entry_lost_witness:
  "read_entries json_extern (snd (log_rejection json_extern 0 IoOk ''type'' ''no'' ''human'' (Some []))) = Inr []"
proof -
  have "log_ok []" by (simp add: log_ok_def)
  moreover have "entry_documented json_extern (rejection_entry json_extern 0 ''type'' ''no'' ''human'')"
    using demo_rejection_documented(2) by (simp add: demo_rejection_def)
  ultimately have "read_entries json_extern (snd (log_rejection json_extern 0 IoOk ''type'' ''no'' ''human'' (Some []))) =
      read_entries json_extern (Some [])"
    using audit_entry_lost [of "[]" "''type''" json_extern 0 "''no''" "''human''"] by blast
  then show ?thesis by (simp add: read_entries_def)
qed

text \<open>Where a torn line goes: with the next entry on its line, it is no entry any more.\<close>

lemma parse_torn_line:
  assumes "parses_json_only X" and "hd p = CHR 0x7B" and "p \<noteq> []" and "object_text ''timestamp'' t"
  shows "parse_entry X (p @ t) = None"
proof (cases "json_parse X (p @ t)")
  case (Some j)
  with assms(1) have "scan_ends (json_scan (Out 0) (p @ t))" unfolding parses_json_only_def by blast
  moreover have "\<not> scan_ends (json_scan (Out 0) (p @ t))"
    by (rule cut_object_not_json [OF assms(2-4)]) (simp_all add: json_space_def closes_json_def newline_def)
  ultimately show ?thesis by simp
qed (simp add: parse_entry_def)

lemma lines_torn:
  assumes "log_ok c" and "entry_documented X e" and "entry_documented X e1" and "utf8_valid (take n (entry_text X e))"
    and c'_def: "c' = c @ take n (entry_text X e) @ entry_text X e1 @ [newline]"
  shows "log_ok c'" and "lines c' = lines c @ [take n (entry_text X e) @ entry_text X e1]"
proof -
  note d = entry_documentedD [OF assms(2)] and d1 = entry_documentedD [OF assms(3)]
  have c: "utf8_valid c" "c = [] \<or> last c = newline" using assms(1) by (simp_all add: log_ok_def)
  have "newline \<notin> set (take n (entry_text X e) @ entry_text X e1)"
    "CHR 0x0D \<notin> set (take n (entry_text X e) @ entry_text X e1)"
    using d(3,4) d1(3,4) by (auto dest: in_set_takeD)
  from lines_text [OF this] show "lines c' = lines c @ [take n (entry_text X e) @ entry_text X e1]"
    by (simp add: c'_def lines_append [OF c(2)])
  show "log_ok c'" using c(1) assms(4) d1(1) by (simp add: c'_def log_ok_def utf8_valid_append)
qed

text \<open>What is read after a torn write, and after one that ends in a character.\<close>

lemma read_after_torn:
  assumes "log_ok c" and "parses_json_only X" and "entry_documented X e" and "0 < n"
    and "utf8_valid (take n (entry_text X e))"
    and es: "\<forall>e' \<in> set (e1 # es). entry_documented X e' \<and> reads_back X (entry_to_json e')"
    and "object_text ''timestamp'' (entry_text X e1)"
  shows "read_entries X (write_all X (e1 # es) (Some (c @ take n (entry_text X e)))) =
    Inr (read_lines X (lines c) @ filter (\<lambda>e'. \<not> header_like (entry_text X e')) es)"
proof -
  let ?t = "take n (entry_text X e)" and ?u = "entry_text X e1"
  have e1: "entry_documented X e1" using es by simp
  note torn = lines_torn [OF assms(1,3) e1 assms(5) refl]
  obtain c' where c': "write_all X es (Some (c @ ?t @ ?u @ [newline])) = Some c'" "log_ok c'"
    "lines c' = lines (c @ ?t @ ?u @ [newline]) @ map (entry_text X) es"
    using write_all_ok [OF torn(1), of es X] es by auto
  have "write_all X (e1 # es) (Some (c @ ?t)) = Some c'" using c'(1) by (simp add: write_all_def append_entry_def)
  moreover have "hd ?t = CHR 0x7B" "?t \<noteq> []"
    using entry_documentedD(2) [OF assms(3)] \<open>0 < n\<close> by (cases n; auto)+
  then have "read_lines X [?t @ ?u] = []" using parse_torn_line [OF assms(2) _ _ assms(7)] by simp
  then have "read_lines X (lines c') = read_lines X (lines c) @ read_lines X (map (entry_text X) es)"
    by (simp only: c'(3) torn(2) read_lines_append append_Nil2)
  ultimately show ?thesis
    using c'(2) read_lines_entries [of es X] es by (simp add: read_entries_def log_ok_def)
qed

lemma read_after_cut_character:
  assumes "log_ok c" and "entry_documented X e" and "\<not> utf8_valid (take n (entry_text X e))" and "entry_documented X e1"
  shows "read_entries X (write_all X (e1 # es) (Some (c @ take n (entry_text X e)))) = Inl (Err ''read'')"
proof -
  let ?t = "take n (entry_text X e)"
  obtain r where r: "entry_text X e1 = CHR 0x7B # r" using entry_documentedD(2) [OF assms(4)] by blast
  have "\<not> utf8_valid (?t @ CHR 0x7B # x)" for x
    using assms(3) utf8_valid_cut [of ?t "CHR 0x7B" x] by (auto simp: is_continuation_def)
  then have "\<not> utf8_valid (c @ ?t @ CHR 0x7B # x)" for x
    using assms(1) by (simp add: log_ok_def utf8_valid_append)
  then have "\<not> utf8_valid ((c @ ?t) @ concat (map (\<lambda>e. entry_text X e @ [newline]) (e1 # es)))" by (simp add: r)
  then show ?thesis by (simp add: write_all_text read_entries_def)
qed

text \<open>
  C39: a torn write damages the entry after it. Let a write stop after \<open>n\<close> bytes of the line of an entry, also
  right before its line break. The next entry is reported as written. When nothing was written, it is read
  back; otherwise it shares the torn line, and reading gives the entries before the torn one and those
  after the next one, so both are lost; and when the write stopped inside a character, the whole log cannot
  be read any more, whatever is appended later. (Entries whose line looks like the header are never read.)
\<close>

theorem torn_write_damages_log:
  assumes "log_ok c" and "parses_json_only X" and "entry_documented X e" and "n \<le> length (entry_text X e)"
    and "\<forall>e' \<in> set (e1 # es). entry_documented X e' \<and> reads_back X (entry_to_json e')"
    and "object_text ''timestamp'' (entry_text X e1)"
  shows "fst (append_entry X IoOk e1 (snd (append_entry X (WriteFails n) e (Some c)))) = Inr () \<and>
    (\<exists>old. read_entries X (Some c) = Inr old \<and>
      read_entries X (write_all X (e1 # es) (snd (append_entry X (WriteFails n) e (Some c)))) =
        (if n = 0 then Inr (old @ filter (\<lambda>e'. \<not> header_like (entry_text X e')) (e1 # es))
         else if utf8_valid (take n (entry_text X e))
         then Inr (old @ filter (\<lambda>e'. \<not> header_like (entry_text X e')) es)
         else Inl (Err ''read'')))"
proof -
  have torn: "snd (append_entry X (WriteFails n) e (Some c)) = Some (c @ take n (entry_text X e))"
    using assms(4) by (simp add: append_entry_def)
  have e1: "entry_documented X e1" using assms(5) by simp
  have "read_entries X (write_all X (e1 # es) (Some c)) =
      Inr (read_lines X (lines c) @ filter (\<lambda>e'. \<not> header_like (entry_text X e')) (e1 # es))"
    using write_all_ok [OF assms(1), of "e1 # es" X] assms(5) read_lines_entries [OF assms(5)]
    by (auto simp: read_entries_def log_ok_def read_lines_append simp del: list.map filter.simps)
  moreover have "read_entries X (Some c) = Inr (read_lines X (lines c))"
    using assms(1) by (simp add: read_entries_def log_ok_def)
  moreover have "fst (append_entry X IoOk e1 (Some x)) = Inr ()" for x by (simp add: append_entry_def)
  ultimately show ?thesis
    using read_after_torn [OF assms(1-3) _ _ assms(5,6)] read_after_cut_character [OF assms(1,3) _ e1]
    by (simp add: torn)
qed

text \<open>An entry of a change called \<open>c2\<close> after the torn one of \<open>c1\<close>.\<close>

definition torn_extern :: extern where
  "torn_extern = parse_extern (entry_to_json (demo_rejection ''c2''))"

lemma demo_object_text: "object_text ''timestamp'' (jtext (entry_to_json (demo_rejection ''c2'')))"
  by (simp add: object_text_def jtext_simps dq_def starts_with_def opens_json_def closes_json_def json_space_def
      close_bracket_def newline_def)

lemma torn_extern_json: "parses_json_only torn_extern"
  using demo_object_text
  by (auto simp: parses_json_only_def torn_extern_def parse_extern_def object_text_def scan_ends_def split: if_splits)

theorem torn_write_damages_log_witness:
  "read_entries torn_extern (write_all torn_extern [demo_rejection ''c2'']
     (snd (append_entry torn_extern (WriteFails 1) (demo_rejection ''c1'') (Some [])))) = Inr []"
proof -
  have doc: "entry_documented torn_extern (demo_rejection ''c1'')" "entry_documented torn_extern (demo_rejection ''c2'')"
    by (simp_all add: torn_extern_def demo_rejection_documented)
  obtain r where r: "entry_text torn_extern (demo_rejection ''c1'') = CHR 0x7B # r"
    using entry_documentedD(2) [OF doc(1)] by blast
  have "object_text ''timestamp'' (entry_text torn_extern (demo_rejection ''c2''))"
    using demo_object_text by (simp add: torn_extern_def json_extern_def)
  moreover have "\<forall>e' \<in> set [demo_rejection ''c2'']. entry_documented torn_extern e' \<and> reads_back torn_extern (entry_to_json e')"
    using doc(2) by (simp add: torn_extern_def)
  moreover have "1 \<le> length (entry_text torn_extern (demo_rejection ''c1''))" by (simp add: r)
  moreover have "log_ok []" by (simp add: log_ok_def)
  moreover have "utf8_valid (take 1 (entry_text torn_extern (demo_rejection ''c1'')))"
    by (simp add: r utf8_follow_def byte_in_def)
  ultimately show ?thesis
    using torn_write_damages_log [OF _ torn_extern_json doc(1), of "[]" 1 "demo_rejection ''c2''" "[]"]
    by (auto simp: read_entries_def)
qed

definition count_type :: "string \<Rightarrow> audit_entry list \<Rightarrow> nat" where
  "count_type ty es = length (filter (\<lambda>e. ae_event_type e = ty) es)"

lemma count_entry_fold:
  "total_events (fold count_entry es s) = total_events s + length es"
  "changes_submitted (fold count_entry es s) = changes_submitted s + count_type ''CHANGE_SUBMITTED'' es"
  "changes_approved (fold count_entry es s) = changes_approved s + count_type ''CHANGE_APPROVED'' es"
  "changes_rejected (fold count_entry es s) = changes_rejected s + count_type ''CHANGE_REJECTED'' es"
  "changes_committed (fold count_entry es s) = changes_committed s + count_type ''CHANGE_COMMITTED'' es"
  by (induction es arbitrary: s; simp add: count_entry_def count_type_def Let_def split: option.splits)+

lemma count_reviewers_fold:
  "(case fmlookup (reviewers (fold count_entry es s)) r of None \<Rightarrow> 0 | Some n \<Rightarrow> n) =
     (case fmlookup (reviewers s) r of None \<Rightarrow> 0 | Some n \<Rightarrow> n) +
     length (filter (\<lambda>e. ae_reviewer e = Some r) es)"
proof (induction es arbitrary: s)
  case (Cons e es)
  have "(case fmlookup (reviewers (count_entry e s)) r of None \<Rightarrow> 0 | Some n \<Rightarrow> n) =
      (case fmlookup (reviewers s) r of None \<Rightarrow> 0 | Some n \<Rightarrow> n) + (if ae_reviewer e = Some r then 1 else 0)"
    by (auto simp: count_entry_def Let_def split: option.splits)
  then show ?case by (simp add: Cons.IH)
qed simp

text \<open>
  The summary counts the entries that are read: all of them, those of each kind, and for every
  reviewer those that name the reviewer.
\<close>

lemma audit_summary_counts:
  assumes "read_entries X f = Inr es"
  shows "\<exists>s. generate_summary X f = Inr s \<and> total_events s = length es \<and>
    changes_submitted s = count_type ''CHANGE_SUBMITTED'' es \<and>
    changes_approved s = count_type ''CHANGE_APPROVED'' es \<and>
    changes_rejected s = count_type ''CHANGE_REJECTED'' es \<and>
    changes_committed s = count_type ''CHANGE_COMMITTED'' es \<and>
    (\<forall>r. (case fmlookup (reviewers s) r of None \<Rightarrow> 0 | Some n \<Rightarrow> n) =
       length (filter (\<lambda>e. ae_reviewer e = Some r) es))"
  using assms
  by (intro exI [of _ "fold count_entry es summary_default"])
    (simp add: generate_summary_def count_entry_fold count_reviewers_fold summary_default_def)

lemma audit_summary_counts_witness:
  "\<exists>s. generate_summary json_extern (Some []) = Inr s \<and> total_events s = 0"
proof -
  have "read_entries json_extern (Some []) = Inr []" by (simp add: read_entries_def)
  from audit_summary_counts [OF this] show ?thesis by auto
qed

end
