(* ===== verification/Commit_Gateway.thy ===== *)
theory Commit_Gateway
  imports Audit_Log
begin

text \<open>
  \<open>seb/human_touch/src/commit_gateway.rs\<close>: approval certificates, commits whose message carries the
  approval, reading the approval back, and the textual guard against automatic commits. \<open>git2\<close> is a
  parameter: the record \<open>git\<close> has the functions the code calls, on a repository state.
\<close>

section \<open>The repository\<close>

record 'w git =
  git_open :: "string \<Rightarrow> 'w \<Rightarrow> unit res"
  git_add_path :: "string \<Rightarrow> 'w \<Rightarrow> 'w res"
  git_write_index :: "'w \<Rightarrow> 'w res"
  git_write_tree :: "'w \<Rightarrow> string res"
  git_find_tree :: "string \<Rightarrow> 'w \<Rightarrow> unit res"
  git_signature :: "string \<Rightarrow> string \<Rightarrow> unit res"
  git_head :: "'w \<Rightarrow> string option res"
  git_find_commit :: "string \<Rightarrow> 'w \<Rightarrow> unit res"
  git_commit :: "string \<Rightarrow> string \<Rightarrow> string \<Rightarrow> string \<Rightarrow> string \<Rightarrow> 'w \<Rightarrow> (string \<times> 'w) res"
    \<comment> \<open>author, e-mail, message, tree, parent\<close>
  git_oid :: "string \<Rightarrow> string res"
  git_message :: "string \<Rightarrow> 'w \<Rightarrow> string option"

text \<open>
  Documented behaviour: a commit that was made can be found by its identifier, and \<open>Commit::message\<close> returns a
  message that is UTF-8 without the newlines it may start with.
\<close>

definition skip_newlines :: "string \<Rightarrow> string" where
  "skip_newlines = dropWhile (\<lambda>c. c = newline)"

definition git_keeps_message :: "'w git \<Rightarrow> bool" where
  "git_keeps_message G \<longleftrightarrow>
     (\<forall>path n m body tree par w h w'.
        git_open G path w = Inr () \<and> git_commit G n m body tree par w = Inr (h, w') \<and> utf8_valid body \<longrightarrow>
        git_open G path w' = Inr () \<and> git_oid G h = Inr h \<and> git_find_commit G h w' = Inr () \<and>
        git_message G h w' = Some (skip_newlines body))"

section \<open>The gateway\<close>

record approval_certificate =
  cert_change_id :: string
  cert_reviewer :: string
  cert_approval_time :: string
  cert_evidence_hash :: string
  cert_signature :: string

record human_approved_commit =
  hac_change_id :: string
  hac_approved_by :: string
  hac_approval_date :: string
  hac_evidence_url :: string
  hac_review_link :: "string option"

record commit_gateway =
  gw_repo_path :: string
  gw_approval_timeout_secs :: u64
  gw_signing_seed :: "string option"

definition gateway_new :: "string \<Rightarrow> u64 \<Rightarrow> commit_gateway" where
  "gateway_new path timeout =
     \<lparr>gw_repo_path = path, gw_approval_timeout_secs = timeout,
      gw_signing_seed = Some (replicate 32 (CHR 0x00))\<rparr>"

definition verify_approval_required :: "commit_gateway \<Rightarrow> string \<Rightarrow> unit res" where
  "verify_approval_required g cid =
     (if cid = [] then Inl (Err ''Change ID cannot be empty'') else Inr ())"

fun add_paths :: "'w git \<Rightarrow> string list \<Rightarrow> 'w \<Rightarrow> 'w res" where
  "add_paths G [] w = Inr w"
| "add_paths G (f # fs) w = res_bind (git_add_path G f w) (add_paths G fs)"

definition stage_files :: "'w git \<Rightarrow> commit_gateway \<Rightarrow> string list \<Rightarrow> 'w \<Rightarrow> 'w res" where
  "stage_files G g files w =
     res_bind (git_open G (gw_repo_path g) w) (\<lambda>_.
     res_bind (add_paths G files w) (\<lambda>w'. git_write_index G w'))"

definition signing_material :: "string \<Rightarrow> string \<Rightarrow> string \<Rightarrow> string" where
  "signing_material cid reviewer time = cid @ ''||'' @ reviewer @ ''||'' @ time"

definition create_approval_certificate ::
    "extern \<Rightarrow> timestamp \<Rightarrow> commit_gateway \<Rightarrow> string \<Rightarrow> string \<Rightarrow> string \<Rightarrow> approval_certificate res" where
  "create_approval_certificate X now g cid reviewer ev =
     (let evidence_hash = blake3_hex X ev;
          sig = blake3_hex X (signing_material cid reviewer (rfc3339_secs X now))
      in Inr \<lparr>cert_change_id = cid, cert_reviewer = reviewer, cert_approval_time = rfc3339_secs X now,
              cert_evidence_hash = evidence_hash, cert_signature = sig\<rparr>)"

definition commit_body :: "extern \<Rightarrow> timestamp \<Rightarrow> string \<Rightarrow> string \<Rightarrow> string \<Rightarrow> string \<Rightarrow> string" where
  "commit_body X now msg reviewer ev cid =
     msg @ [newline, newline] @ ''Approved-By: '' @ reviewer
     @ [newline] @ ''Review-Date: '' @ rfc3339_secs X now
     @ [newline] @ ''Evidence: '' @ ev
     @ [newline] @ ''Change-ID: '' @ cid
     @ [newline, newline] @ ''Co-Authored-By: Human-Touch Gateway <human-review@snapkitty.ai>''"

definition commit_with_approval ::
    "'w git \<Rightarrow> extern \<Rightarrow> timestamp \<Rightarrow> commit_gateway \<Rightarrow> string \<Rightarrow> string \<Rightarrow> string \<Rightarrow> string \<Rightarrow> 'w \<Rightarrow>
     (string \<times> 'w) res" where
  "commit_with_approval G X now g cid reviewer msg ev w =
     res_bind (git_open G (gw_repo_path g) w) (\<lambda>_.
     res_bind (git_write_tree G w) (\<lambda>tree.
     res_bind (git_find_tree G tree w) (\<lambda>_.
     res_bind (git_signature G reviewer (reviewer @ ''-review@snapkitty.ai'')) (\<lambda>_.
     res_bind (git_head G w) (\<lambda>target.
       case target of None \<Rightarrow> Inl (Err ''No HEAD commit found'')
       | Some par \<Rightarrow>
           res_bind (git_find_commit G par w) (\<lambda>_.
             git_commit G reviewer (reviewer @ ''-review@snapkitty.ai'')
               (commit_body X now msg reviewer ev cid) tree par w))))))"

definition reject_commit :: "string \<Rightarrow> string \<Rightarrow> unit res" where
  "reject_commit cid why = Inr ()"

text \<open>The loop over the lines of the message: approver, date, evidence, change.\<close>

type_synonym approval_fields = "string \<times> string \<times> string \<times> string"

definition field_value :: "string \<Rightarrow> string \<Rightarrow> string" where
  "field_value label l = trim (trim_start_matches label l)"

definition read_field :: "string \<Rightarrow> approval_fields \<Rightarrow> approval_fields" where
  "read_field l acc =
     (case acc of (a, d, e, c) \<Rightarrow>
        if starts_with l ''Approved-By:'' then (field_value ''Approved-By:'' l, d, e, c)
        else if starts_with l ''Review-Date:'' then (a, field_value ''Review-Date:'' l, e, c)
        else if starts_with l ''Evidence:'' then (a, d, field_value ''Evidence:'' l, c)
        else if starts_with l ''Change-ID:'' then (a, d, e, field_value ''Change-ID:'' l)
        else (a, d, e, c))"

definition parse_approval :: "string \<Rightarrow> human_approved_commit res" where
  "parse_approval msg =
     (case fold read_field (lines msg) (''unknown'', ''unknown'', ''unknown'', ''unknown'') of
        (a, d, e, c) \<Rightarrow>
          if a = ''unknown'' then Inl (Err ''Commit missing Approved-By field'')
          else Inr \<lparr>hac_change_id = c, hac_approved_by = a, hac_approval_date = d,
                    hac_evidence_url = e, hac_review_link = None\<rparr>)"

definition verify_commit_approval ::
    "'w git \<Rightarrow> commit_gateway \<Rightarrow> string \<Rightarrow> 'w \<Rightarrow> human_approved_commit res" where
  "verify_commit_approval G g hash w =
     res_bind (git_open G (gw_repo_path g) w) (\<lambda>_.
     res_bind (git_oid G hash) (\<lambda>oid.
     res_bind (git_find_commit G oid w) (\<lambda>_.
       parse_approval (case git_message G oid w of None \<Rightarrow> ''(no message)'' | Some m \<Rightarrow> m))))"

text \<open>The cross mark \<open>U+274C\<close> that starts the messages of the guard.\<close>

definition cross_mark :: string where
  "cross_mark = [CHR 0xE2, CHR 0x9D, CHR 0x8C]"

definition check_no_auto_commit :: "string \<Rightarrow> unit res" where
  "check_no_auto_commit msg =
     (if str_contains msg ''[auto]'' \<or> str_contains msg ''auto-commit'' then
        Inl (Err (cross_mark @ '' Auto-commits rejected. All changes require human approval.''))
      else if trim msg = [] then
        Inl (Err (cross_mark @ '' Commit message cannot be empty''))
      else if \<not> str_contains msg ''Approved-By:'' then
        Inl (Err (cross_mark @ '' Commit missing Approved-By field. All commits require human approval.''))
      else Inr ())"

section \<open>Facts about the fields of a message\<close>

text \<open>A text that stays on its line and has no white space around it.\<close>

definition clean :: "string \<Rightarrow> bool" where
  "clean s \<longleftrightarrow> newline \<notin> set s \<and> CHR 0x0D \<notin> set s \<and> trim s = s"

lemma field_value_clean:
  assumes "clean x" and "label \<noteq> []" and "hd label \<noteq> CHR '' ''"
  shows "field_value label (label @ '' '' @ x) = x"
proof -
  have "\<not> starts_with (CHR '' '' # x) label" using assms(2,3) by (cases label) (auto simp: starts_with_iff)
  then have "trim_start_matches label (label @ CHR '' '' # x) = CHR '' '' # x"
    using assms(2) by (intro trim_start_matches_append)
  then show ?thesis using assms(1) by (simp add: field_value_def trim_space clean_def)
qed

lemma lines_labelled:
  assumes "clean x" and "newline \<notin> set label"
  shows "lines (label @ '' '' @ x @ newline # r) = (label @ '' '' @ x) # lines r"
proof -
  have "newline \<notin> set (label @ '' '' @ x)" using assms by (simp add: clean_def newline_def)
  moreover have "strip_cr (label @ '' '' @ x) = label @ '' '' @ x"
    using assms(1) by (auto simp: strip_cr_def clean_def)
      (metis last_in_set)+
  ultimately show ?thesis using lines_cons [of "label @ '' '' @ x" r] by simp
qed

text \<open>The lines after the message: they set every field, whatever the message set.\<close>

definition trailer :: "string \<Rightarrow> string \<Rightarrow> string \<Rightarrow> string \<Rightarrow> string" where
  "trailer a d e c =
     [newline] @ ''Approved-By: '' @ a @ [newline] @ ''Review-Date: '' @ d @ [newline] @ ''Evidence: '' @ e
     @ [newline] @ ''Change-ID: '' @ c"

lemma read_field_labels:
  "read_field (''Approved-By: '' @ x) (a, d, e, c) = (field_value ''Approved-By:'' (''Approved-By:'' @ '' '' @ x), d, e, c)"
  "read_field (''Review-Date: '' @ x) (a, d, e, c) = (a, field_value ''Review-Date:'' (''Review-Date:'' @ '' '' @ x), e, c)"
  "read_field (''Evidence: '' @ x) (a, d, e, c) = (a, d, field_value ''Evidence:'' (''Evidence:'' @ '' '' @ x), c)"
  "read_field (''Change-ID: '' @ x) (a, d, e, c) = (a, d, e, field_value ''Change-ID:'' (''Change-ID:'' @ '' '' @ x))"
  by (simp_all add: read_field_def starts_with_def)

lemma read_trailer:
  assumes "clean a" and "clean d" and "clean e" and "clean c"
  shows "fold read_field (lines (msg @ [newline] @ trailer a d e c @ newline # r)) fs =
    fold read_field (lines r) (a, d, e, c)"
proof -
  have l: "lines (msg @ [newline] @ trailer a d e c @ newline # r) =
      lines (msg @ [newline]) @ [] # (''Approved-By: '' @ a) # (''Review-Date: '' @ d) #
      (''Evidence: '' @ e) # (''Change-ID: '' @ c) # lines r"
    using lines_append [of "msg @ [newline]" "trailer a d e c @ newline # r"]
      lines_cons [of "[]" "''Approved-By: '' @ a @ newline # ''Review-Date: '' @ d @ newline #
        ''Evidence: '' @ e @ newline # ''Change-ID: '' @ c @ newline # r"]
      lines_labelled [OF assms(1), of "''Approved-By:''"] lines_labelled [OF assms(2), of "''Review-Date:''"]
      lines_labelled [OF assms(3), of "''Evidence:''"] lines_labelled [OF assms(4), of "''Change-ID:''"]
    by (simp add: trailer_def strip_cr_def newline_def)
  obtain a0 d0 e0 c0 where f: "fold read_field (lines (msg @ [newline])) fs = (a0, d0, e0, c0)"
    by (cases "fold read_field (lines (msg @ [newline])) fs")
  have "read_field [] (a0, d0, e0, c0) = (a0, d0, e0, c0)" by (simp add: read_field_def starts_with_def)
  with f show ?thesis
    using field_value_clean [OF assms(1), of "''Approved-By:''"] field_value_clean [OF assms(2), of "''Review-Date:''"]
      field_value_clean [OF assms(3), of "''Evidence:''"] field_value_clean [OF assms(4), of "''Change-ID:''"]
    by (simp only: l fold_append comp_apply fold.simps id_apply read_field_labels list.sel not_Cons_self2) simp
qed

definition coauthor :: string where
  "coauthor = ''Co-Authored-By: Human-Touch Gateway <human-review@snapkitty.ai>''"

lemma commit_body_eq:
  "commit_body X now msg reviewer ev cid =
     msg @ [newline] @ trailer reviewer (rfc3339_secs X now) ev cid @ newline # newline # coauthor"
  by (simp add: commit_body_def trailer_def coauthor_def)

lemma read_coauthor: "fold read_field (lines (newline # coauthor)) fs = fs"
proof -
  have "newline \<notin> set coauthor" by (simp add: coauthor_def newline_def)
  then have "lines coauthor = [coauthor]" by (rule lines_single) (simp add: coauthor_def)
  then have "lines (newline # coauthor) = [[], coauthor]"
    using lines_cons [of "[]" coauthor] by (simp add: strip_cr_def)
  then show ?thesis by (simp add: read_field_def starts_with_def coauthor_def split: prod.splits)
qed

text \<open>Newlines in front of a message are empty lines, which set no field.\<close>

lemma read_skip_newlines: "fold read_field (lines (skip_newlines s)) fs = fold read_field (lines s) fs"
proof (induction s)
  case (Cons c s)
  have "read_field [] fs = fs" by (cases fs) (simp add: read_field_def starts_with_def)
  with Cons show ?case using lines_cons [of "[]" s] by (simp add: skip_newlines_def strip_cr_def)
qed (simp add: skip_newlines_def)

lemma parse_skip_newlines: "parse_approval (skip_newlines s) = parse_approval s"
  by (simp add: parse_approval_def read_skip_newlines)

lemma commit_with_approval_Inr:
  assumes "git_keeps_message G" and "commit_with_approval G X now g cid reviewer msg ev w = Inr (h, w')"
    and "utf8_valid (commit_body X now msg reviewer ev cid)"
  shows "verify_commit_approval G g h w' = parse_approval (commit_body X now msg reviewer ev cid)"
proof -
  from assms(2) obtain n m tree par where
    "git_open G (gw_repo_path g) w = Inr ()"
    "git_commit G n m (commit_body X now msg reviewer ev cid) tree par w = Inr (h, w')"
    by (auto simp: commit_with_approval_def res_bind_Inr_iff split: option.splits)
  with assms(1) have "git_open G (gw_repo_path g) w' = Inr ()" "git_oid G h = Inr h"
    "git_find_commit G h w' = Inr ()"
    "git_message G h w' = Some (skip_newlines (commit_body X now msg reviewer ev cid))"
    using assms(3) unfolding git_keeps_message_def by blast+
  then show ?thesis by (simp add: verify_commit_approval_def parse_skip_newlines)
qed

lemma verify_made_commit:
  assumes "git_keeps_message G" and "commit_with_approval G X now g cid reviewer msg ev w = Inr (h, w')"
    and "utf8_valid (commit_body X now msg reviewer ev cid)"
    and "clean reviewer" and "clean (rfc3339_secs X now)" and "clean ev" and "clean cid"
  shows "verify_commit_approval G g h w' =
    (if reviewer = ''unknown'' then Inl (Err ''Commit missing Approved-By field'')
     else Inr \<lparr>hac_change_id = cid, hac_approved_by = reviewer,
               hac_approval_date = rfc3339_secs X now, hac_evidence_url = ev, hac_review_link = None\<rparr>)"
  unfolding commit_with_approval_Inr [OF assms(1-3)] parse_approval_def commit_body_eq
    read_trailer [OF assms(4-7)] read_coauthor
  by simp

section \<open>An instance\<close>

text \<open>A repository that keeps its commits in a list, for the witnesses.\<close>

definition demo_git :: "(string \<times> string) list git" where
  "demo_git =
     \<lparr>git_open = (\<lambda>p w. Inr ()), git_add_path = (\<lambda>p w. Inr w), git_write_index = Inr,
      git_write_tree = (\<lambda>w. Inr ''tree''), git_find_tree = (\<lambda>t w. Inr ()),
      git_signature = (\<lambda>n m. Inr ()), git_head = (\<lambda>w. Inr (Some ''head'')),
      git_find_commit = (\<lambda>h w. Inr ()),
      git_commit = (\<lambda>n m body tree par w. Inr (show_nat (length w), (show_nat (length w), body) # w)),
      git_oid = Inr, git_message = (\<lambda>h w. map_option skip_newlines (map_of w h))\<rparr>"

lemma demo_git_keeps_message: "git_keeps_message demo_git"
  by (auto simp: git_keeps_message_def demo_git_def)

lemma demo_commit:
  "commit_with_approval demo_git json_extern 0 g cid reviewer msg ev [] =
     Inr (show_nat 0, [(show_nat 0, commit_body json_extern 0 msg reviewer ev cid)])"
  by (simp add: commit_with_approval_def demo_git_def)

lemma ascii_utf8: "\<forall>c \<in> set s. (of_char c :: nat) < 128 \<Longrightarrow> utf8_valid s"
  by (induction s) (simp_all add: utf8_follow_def byte_in_def Let_def)

lemma demo_body_utf8:
  assumes "\<forall>c \<in> set (msg @ who @ ev @ cid). (of_char c :: nat) < 128"
  shows "utf8_valid (commit_body json_extern 0 msg who ev cid)"
  using assms by (intro ascii_utf8) (auto simp: commit_body_def json_extern_def newline_def)

lemma space_bytes_ascii: "c \<in> space_bytes \<Longrightarrow> c = CHR '' '' \<or> (of_char c :: nat) < 32 \<or> 128 \<le> (of_char c :: nat)"
  unfolding space_bytes_def white_space_def by (simp, elim disjE; simp)

lemma clean_word:
  assumes "ascii_plain s" and "CHR '' '' \<notin> set s"
  shows "clean s"
proof -
  have b: "32 \<le> (of_char c :: nat)" "(of_char c :: nat) < 128" "c \<noteq> CHR '' ''" if "c \<in> set s" for c
    using that assms unfolding ascii_plain_def by blast+
  have c: "c \<notin> space_bytes" if "c \<in> set s" for c
    using b [OF that] space_bytes_ascii [of c] by linarith
  have keep: "trim_any ps t = t" if "set t \<subseteq> set s" and "\<Union> (set ` set ps) = space_bytes" "\<forall>p \<in> set ps. p \<noteq> []" for ps t
  proof (cases "strip_any ps t")
    case None
    then show ?thesis by (simp add: trim_any.simps)
  next
    case (Some r)
    then obtain p where p: "p \<in> set ps" "t = p @ r" by (auto dest: strip_any_SomeD)
    with that(3) have "hd p \<in> set p" by simp
    with p that(2) have "hd p \<in> space_bytes" by blast
    moreover from p \<open>hd p \<in> set p\<close> that(1) have "hd p \<in> set s" by auto
    ultimately show ?thesis using c by blast
  qed
  have ne: "\<forall>p \<in> set white_space. p \<noteq> []" by (simp add: white_space_def)
  have "trim s = s"
    using keep [of s white_space] keep [of "rev s" "map rev white_space"] ne
    by (simp add: trim_def trim_start_def trim_end_def space_bytes_def)
  moreover have "newline \<notin> set s" "CHR 0x0D \<notin> set s"
    using b(1) [of newline] b(1) [of "CHR 0x0D"] by (auto simp: newline_def)
  ultimately show ?thesis by (simp add: clean_def)
qed

section \<open>Properties\<close>

text \<open>
  C12: the approval of a commit reads back. Whatever the message, when the commit succeeds and the reviewer,
  the date, the evidence and the change stay on their lines without white space around them, the commit
  verifies and gives exactly these fields, except that a reviewer called \<open>unknown\<close> is refused. Also a message
  of newlines alone, which \<open>git2\<close> drops when the message is read, does no harm. The text is UTF-8, as every
  string of the program.
\<close>

theorem commit_approval_roundtrip:
  assumes "git_keeps_message G" and "commit_with_approval G X now g cid reviewer msg ev w = Inr (h, w')"
    and "utf8_valid (commit_body X now msg reviewer ev cid)"
    and "clean reviewer" and "clean (rfc3339_secs X now)" and "clean ev" and "clean cid"
  shows "verify_commit_approval G g h w' =
    (if reviewer = ''unknown'' then Inl (Err ''Commit missing Approved-By field'')
     else Inr \<lparr>hac_change_id = cid, hac_approved_by = reviewer,
               hac_approval_date = rfc3339_secs X now, hac_evidence_url = ev, hac_review_link = None\<rparr>)"
  using assms by (rule verify_made_commit)

theorem commit_approval_roundtrip_witness:
  "verify_commit_approval demo_git (gateway_new ''.'' 3600) (show_nat 0)
     [(show_nat 0, commit_body json_extern 0 ''Approved-By: nobody'' ''human'' ''url'' ''c1'')] =
   Inr \<lparr>hac_change_id = ''c1'', hac_approved_by = ''human'', hac_approval_date = ''now'',
        hac_evidence_url = ''url'', hac_review_link = None\<rparr>"
proof -
  have now: "rfc3339_secs json_extern 0 = ''now''" by (simp add: json_extern_def)
  have w: "clean ''human''" "clean ''now''" "clean ''url''" "clean ''c1''"
    by (rule clean_word; simp add: ascii_plain_def)+
  have "utf8_valid (commit_body json_extern 0 ''Approved-By: nobody'' ''human'' ''url'' ''c1'')"
    by (rule demo_body_utf8) simp
  from commit_approval_roundtrip [OF demo_git_keeps_message demo_commit this w(1) _ w(3,4),
      of "gateway_new ''.'' 3600"]
  show ?thesis using w(2) by (simp add: now)
qed

text \<open>
  C38: an approval can be forged through the identifier of the change. When the commit of a change succeeds
  whose identifier ends with a line break and an approval line, it verifies as approved by the name in that
  line, whoever the reviewer was, provided that the name is not \<open>unknown\<close> and that the reviewer, the date, the
  evidence, the name and the rest of the identifier have no line break in them and no white space
  around them.
\<close>

theorem approver_forged_by_change_id:
  assumes "git_keeps_message G"
    and "commit_with_approval G X now g (c @ newline # ''Approved-By: '' @ forged) reviewer msg ev w = Inr (h, w')"
    and "utf8_valid (commit_body X now msg reviewer ev (c @ newline # ''Approved-By: '' @ forged))"
    and "clean reviewer" and "clean (rfc3339_secs X now)" and "clean ev" and "clean c"
    and "clean forged" and "forged \<noteq> ''unknown''"
  shows "verify_commit_approval G g h w' =
    Inr \<lparr>hac_change_id = c, hac_approved_by = forged, hac_approval_date = rfc3339_secs X now,
         hac_evidence_url = ev, hac_review_link = None\<rparr>"
proof -
  have body: "commit_body X now msg reviewer ev (c @ newline # ''Approved-By: '' @ forged) =
      msg @ [newline] @ trailer reviewer (rfc3339_secs X now) ev c @ newline #
        (''Approved-By:'' @ '' '' @ forged @ newline # newline # coauthor)"
    by (simp add: commit_body_eq trailer_def)
  have "newline \<notin> set ''Approved-By:''" by (simp add: newline_def)
  note l = lines_labelled [OF assms(8) this]
  show ?thesis
    unfolding commit_with_approval_Inr [OF assms(1-3)] parse_approval_def body
      read_trailer [OF assms(4-7)] l
    using field_value_clean [OF assms(8), of "''Approved-By:''"] assms(9) read_field_labels(1)
    by (simp add: read_coauthor)
qed

theorem approver_forged_by_change_id_witness:
  "hac_approved_by (projr (verify_commit_approval demo_git (gateway_new ''.'' 3600) (show_nat 0)
     [(show_nat 0, commit_body json_extern 0 ''fix'' ''agent'' ''url'' (''c1'' @ newline # ''Approved-By: '' @ ''ceo''))])) =
   ''ceo''"
proof -
  have now: "rfc3339_secs json_extern 0 = ''now''" by (simp add: json_extern_def)
  have w: "clean ''agent''" "clean ''now''" "clean ''url''" "clean ''c1''" "clean ''ceo''"
    by (rule clean_word; simp add: ascii_plain_def)+
  have "utf8_valid (commit_body json_extern 0 ''fix'' ''agent'' ''url'' (''c1'' @ newline # ''Approved-By: '' @ ''ceo''))"
    by (rule demo_body_utf8) (simp add: newline_def)
  from approver_forged_by_change_id [OF demo_git_keeps_message demo_commit this w(1) _ w(3,4,5),
      of "gateway_new ''.'' 3600"]
  show ?thesis using w(2) by (simp add: now)
qed

text \<open>
  C40: what the guard against automatic commits decides on the messages of the gateway itself: it refuses
  exactly those where the message, the reviewer, the date, the evidence or the change contains one of the two
  marks; it never refuses one as empty or unapproved.
\<close>

theorem guard_on_gateway_commits:
  "check_no_auto_commit (commit_body X now msg reviewer ev cid) =
     (if \<exists>s \<in> {msg, reviewer, rfc3339_secs X now, ev, cid}.
           sublist ''[auto]'' s \<or> sublist ''auto-commit'' s
      then Inl (Err (cross_mark @ '' Auto-commits rejected. All changes require human approval.''))
      else Inr ())"
proof -
  let ?b = "commit_body X now msg reviewer ev cid"
  have pieces: "sublist p ?b \<longleftrightarrow>
      (\<exists>s \<in> {msg, reviewer, rfc3339_secs X now, ev, cid}. sublist p s)"
    if p: "newline \<notin> set p" "CHR '' '' \<notin> set p" "\<not> sublist p ''Approved-By:''" "\<not> sublist p ''Review-Date:''"
      "\<not> sublist p ''Evidence:''" "\<not> sublist p ''Change-ID:''" "\<not> sublist p coauthor" "p \<noteq> []" for p
  proof -
    have b: "?b = msg @ newline # [] @ newline # (''Approved-By:'' @ CHR '' '' # reviewer) @ newline #
        (''Review-Date:'' @ CHR '' '' # rfc3339_secs X now) @ newline # (''Evidence:'' @ CHR '' '' # ev) @ newline #
        (''Change-ID:'' @ CHR '' '' # cid) @ newline # [] @ newline # coauthor"
      by (simp add: commit_body_def coauthor_def)
    show ?thesis unfolding b sublist_separator [OF p(1)] sublist_separator [OF p(2)] using p by simp
  qed
  have "sublist ''[auto]'' ?b \<longleftrightarrow> (\<exists>s \<in> {msg, reviewer, rfc3339_secs X now, ev, cid}. sublist ''[auto]'' s)"
    by (rule pieces) (simp_all add: newline_def coauthor_def flip: str_contains_iff, simp_all add: starts_with_def)
  moreover have "sublist ''auto-commit'' ?b \<longleftrightarrow>
      (\<exists>s \<in> {msg, reviewer, rfc3339_secs X now, ev, cid}. sublist ''auto-commit'' s)"
    by (rule pieces) (simp_all add: newline_def coauthor_def flip: str_contains_iff, simp_all add: starts_with_def)
  moreover have "str_contains ?b ''Approved-By:''"
    unfolding str_contains_iff sublist_def
    by (intro exI [of _ "msg @ [newline, newline]"] exI) (simp add: commit_body_def)
  moreover have "CHR ''A'' \<in> set ?b" by (simp add: commit_body_def)
  then have "trim ?b \<noteq> []" using trim_keeps [of "CHR ''A''" ?b] by (auto simp: space_bytes_def white_space_def)
  ultimately show ?thesis by (auto simp: check_no_auto_commit_def str_contains_iff)
qed

text \<open>
  A certificate does not determine what was approved: its signature depends neither on the gateway's
  key nor on the evidence, and two different pairs of change and reviewer have the same signature when
  the separator occurs in them.
\<close>

lemma certificate_signature_ambiguous:
  "\<exists>c c'. create_approval_certificate X now g (a @ ''||'' @ b) r ev = Inr c \<and>
     create_approval_certificate X now g' a (b @ ''||'' @ r) ev' = Inr c' \<and>
     cert_signature c = cert_signature c' \<and> cert_change_id c \<noteq> cert_change_id c' \<and>
     cert_reviewer c \<noteq> cert_reviewer c'"
  by (simp add: create_approval_certificate_def signing_material_def Let_def)

end
