(* ===== verification/Review_Queue.thy ===== *)
theory Review_Queue
  imports Commit_Gateway
begin

text \<open>
  \<open>seb/human_touch/src/review_queue.rs\<close>: the queue of changes under review. The state of an operation is
  the queue together with the audit file; every operation changes the queue first and writes the
  audit entry after, so a failed write leaves the two apart. Clocks and the outcomes of writes are
  arguments. The channel is the list of changes it delivers. Printing the request is taken to succeed; \<open>println!\<close>
  would panic on a closed standard output.
\<close>

section \<open>State\<close>

datatype change_status = Pending | UnderReview | Approved | Rejected | Committed

record change_record =
  cr_change :: pending_change
  cr_status :: change_status
  cr_reviewed_by :: "string option"
  cr_review_timestamp :: "timestamp option"
  cr_rejection_reason :: "string option"
  cr_commit_hash :: "string option"

record review_queue =
  rq_repo_path :: string
  rq_audit_log :: string
  max_pending :: nat
  changes :: "(string, change_record) fmap"
  pending_queue :: "string list"

definition queue_new :: "string \<Rightarrow> string \<Rightarrow> nat \<Rightarrow> review_queue" where
  "queue_new repo audit mx =
     \<lparr>rq_repo_path = repo, rq_audit_log = audit, max_pending = mx, changes = fmempty, pending_queue = []\<rparr>"

type_synonym gate_state = "review_queue \<times> audit_file"

section \<open>The request shown to the reviewer\<close>

definition indent_text :: "string \<Rightarrow> nat \<Rightarrow> string" where
  "indent_text txt spaces =
     (let indent = str_repeat '' '' spaces
      in str_join [newline] (map (\<lambda>l. indent @ l) (lines txt)))"

text \<open>The box drawing characters: a bar, and rows that start and end in the given last bytes.\<close>

definition box :: "char \<Rightarrow> string" where
  "box c = [CHR 0xE2, CHR 0x94, c]"

definition box_rule :: "char \<Rightarrow> char \<Rightarrow> string" where
  "box_rule l r = box l @ str_repeat (box (CHR 0x80)) 61 @ box r @ [newline]"

definition box_row :: "string \<Rightarrow> string" where
  "box_row s = box (CHR 0x82) @ s @ [newline]"

definition format_review_request :: "extern \<Rightarrow> pending_change \<Rightarrow> string" where
  "format_review_request X c =
     [newline]
     @ box_rule (CHR 0x8C) (CHR 0x90)
     @ box_row (str_repeat '' '' 19 @ ''HUMAN REVIEW REQUEST'' @ str_repeat '' '' 23 @ box (CHR 0x82))
     @ box_rule (CHR 0x9C) (CHR 0xA4)
     @ box_row ('' ID:       '' @ ch_id c)
     @ box_row ('' Agent:    '' @ ch_agent_name c)
     @ box_row ('' Time:     '' @ ts_display X (ch_created_at c))
     @ box_row ('' Status:   '' @ [CHR 0xE2, CHR 0x8F, CHR 0xB3] @ '' AWAITING REVIEW'')
     @ box_rule (CHR 0x9C) (CHR 0xA4)
     @ box_row '' DESCRIPTION:''
     @ box_row ('' '' @ indent_text (ch_description c) 2)
     @ box_rule (CHR 0x9C) (CHR 0xA4)
     @ box_row '' EVIDENCE:''
     @ box_row ('' '' @ indent_text (ch_evidence c) 2)
     @ box_rule (CHR 0x9C) (CHR 0xA4)
     @ box_row ('' FILES MODIFIED: '' @ show_nat (length (ch_files c)))
     @ box_rule (CHR 0x9C) (CHR 0xA4)
     @ box_row '' DECISION:''
     @ box_row (''   '' @ [CHR 0xE2, CHR 0x9C, CHR 0x85] @ '' approve '' @ ch_id c @ ''  - Approve and commit'')
     @ box_row (''   '' @ cross_mark @ '' reject '' @ ch_id c @ ''   - Reject with reason'')
     @ box_row (''   '' @ [CHR 0xF0, CHR 0x9F, CHR 0x93, CHR 0x9D] @ '' inspect    - Show full diff'')
     @ box_rule (CHR 0x94) (CHR 0x98)"

section \<open>Operations\<close>

text \<open>The lines that are printed on success are the value.\<close>

definition review_prompt :: string where
  "review_prompt =
     [CHR 0xF0, CHR 0x9F, CHR 0xA4, CHR 0x94]
     @ '' Awaiting human review. Enter ''
     @ [CHR 0x27] @ ''approve <id>'' @ [CHR 0x27] @ '' or '' @ [CHR 0x27] @ ''reject <id> <reason>'' @ [CHR 0x27]"

definition handle_incoming_change ::
    "extern \<Rightarrow> timestamp \<Rightarrow> io_outcome \<Rightarrow> pending_change \<Rightarrow> gate_state \<Rightarrow> string list res \<times> gate_state" where
  "handle_incoming_change X now io c st =
     (let (q, f) = st; cid = ch_id c; agent = ch_agent_name c in
      if hm_len (changes q) \<ge> max_pending q then
        (let (r, f') = log_rejection X now io cid ''Queue capacity exceeded'' agent f
         in (res_bind r (\<lambda>_. Inr []), (q, f')))
      else
        (let request = format_review_request X c;
             rec = \<lparr>cr_change = c, cr_status = Pending, cr_reviewed_by = None,
                    cr_review_timestamp = None, cr_rejection_reason = None, cr_commit_hash = None\<rparr>;
             q' = q\<lparr>changes := fmupd cid rec (changes q)\<rparr>;
             (r, f') = log_submitted X now io c f
         in (res_bind r (\<lambda>_. Inr [request, [], review_prompt, []]), (q', f'))))"

text \<open>\<open>now\<close> is the time of the review, \<open>now'\<close> that of the audit entry.\<close>

definition approve_change ::
    "extern \<Rightarrow> timestamp \<Rightarrow> timestamp \<Rightarrow> io_outcome \<Rightarrow> string \<Rightarrow> string \<Rightarrow> gate_state \<Rightarrow>
     unit res \<times> gate_state" where
  "approve_change X now now' io cid reviewer st =
     (let (q, f) = st in
      case fmlookup (changes q) cid of
        Some rec \<Rightarrow>
          (let rec' = rec\<lparr>cr_status := Approved, cr_reviewed_by := Some reviewer,
                          cr_review_timestamp := Some now\<rparr>;
               q' = q\<lparr>changes := fmupd cid rec' (changes q)\<rparr>;
               (r, f') = log_approval X now' io cid reviewer (ch_description (cr_change rec')) f
           in (r, (q', f')))
      | None \<Rightarrow> (Inl (Err (''Change not found: '' @ cid)), (q, f)))"

definition reject_change ::
    "extern \<Rightarrow> timestamp \<Rightarrow> timestamp \<Rightarrow> io_outcome \<Rightarrow> string \<Rightarrow> string \<Rightarrow> string \<Rightarrow> gate_state \<Rightarrow>
     unit res \<times> gate_state" where
  "reject_change X now now' io cid reviewer why st =
     (let (q, f) = st in
      case fmlookup (changes q) cid of
        Some rec \<Rightarrow>
          (let rec' = rec\<lparr>cr_status := Rejected, cr_reviewed_by := Some reviewer,
                          cr_review_timestamp := Some now, cr_rejection_reason := Some why\<rparr>;
               q' = q\<lparr>changes := fmupd cid rec' (changes q)\<rparr>;
               (r, f') = log_rejection X now' io cid why reviewer f
           in (r, (q', f')))
      | None \<Rightarrow> (Inl (Err (''Change not found: '' @ cid)), (q, f)))"

definition mark_committed ::
    "extern \<Rightarrow> timestamp \<Rightarrow> io_outcome \<Rightarrow> string \<Rightarrow> string \<Rightarrow> gate_state \<Rightarrow> unit res \<times> gate_state" where
  "mark_committed X now io cid hash st =
     (let (q, f) = st in
      case fmlookup (changes q) cid of
        Some rec \<Rightarrow>
          (let rec' = rec\<lparr>cr_status := Committed, cr_commit_hash := Some hash\<rparr>;
               q' = q\<lparr>changes := fmupd cid rec' (changes q)\<rparr>;
               (r, f') = log_commit X now io cid hash
                 (case cr_reviewed_by rec' of None \<Rightarrow> ''unknown'' | Some r \<Rightarrow> r) f
           in (r, (q', f')))
      | None \<Rightarrow> (Inl (Err (''Change not found: '' @ cid)), (q, f)))"

text \<open>The check for old reviews only writes to the program's log; \<open>ord\<close> is the order of the map.\<close>

datatype log_line = Debug string | Warn string

definition check_record :: "extern \<Rightarrow> timestamp \<Rightarrow> string \<times> change_record \<Rightarrow> log_line list" where
  "check_record X now kr =
     (let (k, rec) = kr in
      (if cr_status rec = Approved then
         (let elapsed = secs_between X now (case cr_review_timestamp rec of None \<Rightarrow> now | Some t \<Rightarrow> t)
          in if elapsed > 0
             then [Debug (''Change '' @ k @ '' approved by ''
               @ (case cr_reviewed_by rec of None \<Rightarrow> ''unknown'' | Some r \<Rightarrow> r) @ '', ready for commit'')]
             else [])
       else [])
      @ (if cr_status rec = Pending then
           (let elapsed = secs_between X now (ch_created_at (cr_change rec))
            in if elapsed > 3600
               then [Warn (''Change '' @ k @ '' pending review for '' @ show_int elapsed @ ''s (timeout: ''
                 @ show_nat 3600 @ ''s)'')]
               else [])
         else []))"

definition check_pending_reviews :: "extern \<Rightarrow> string list \<Rightarrow> timestamp \<Rightarrow> review_queue \<Rightarrow> log_line list res" where
  "check_pending_reviews X ord now q =
     Inr (concat (map (check_record X now)
       (List.map_filter (\<lambda>k. map_option (\<lambda>r. (k, r)) (fmlookup (changes q) k)) ord)))"

record queue_status =
  qs_total :: nat
  qs_pending :: nat
  qs_approved :: nat
  qs_rejected :: nat
  qs_committed :: nat
  qs_capacity :: nat

fun count_status :: "change_record list \<Rightarrow> nat \<times> nat \<times> nat \<times> nat \<Rightarrow> nat \<times> nat \<times> nat \<times> nat" where
  "count_status [] acc = acc"
| "count_status (r # rs) (p, a, j, c) =
     count_status rs
       (case cr_status r of
          Pending \<Rightarrow> (p + 1, a, j, c)
        | UnderReview \<Rightarrow> (p + 1, a, j, c)
        | Approved \<Rightarrow> (p, a + 1, j, c)
        | Rejected \<Rightarrow> (p, a, j + 1, c)
        | Committed \<Rightarrow> (p, a, j, c + 1))"

definition queue_status_of :: "string list \<Rightarrow> review_queue \<Rightarrow> queue_status" where
  "queue_status_of ord q =
     (case count_status (hm_values ord (changes q)) (0, 0, 0, 0) of (p, a, j, c) \<Rightarrow>
        \<lparr>qs_total = hm_len (changes q), qs_pending = p, qs_approved = a, qs_rejected = j,
         qs_committed = c, qs_capacity = max_pending q\<rparr>)"

text \<open>
  The loop of the processor on the events that \<open>select!\<close> delivers: a change, or the timer. It ends at the
  first error; otherwise it is still waiting when the events are used up.
\<close>

datatype queue_event = Incoming timestamp io_outcome pending_change | Timer timestamp "string list"

fun process_queue :: "extern \<Rightarrow> queue_event list \<Rightarrow> gate_state \<Rightarrow> failure option \<times> gate_state" where
  "process_queue X [] st = (None, st)"
| "process_queue X (Incoming now io c # evs) st =
     (case handle_incoming_change X now io c st of
        (Inl e, st') \<Rightarrow> (Some e, st')
      | (Inr out, st') \<Rightarrow> process_queue X evs st')"
| "process_queue X (Timer now ord # evs) st =
     (case check_pending_reviews X ord now (fst st) of
        Inl e \<Rightarrow> (Some e, st)
      | Inr ls \<Rightarrow> process_queue X evs st)"

section \<open>Runs\<close>

datatype queue_op =
    QIncoming timestamp io_outcome pending_change
  | QApprove timestamp timestamp io_outcome string string
  | QReject timestamp timestamp io_outcome string string string
  | QCommit timestamp io_outcome string string

fun apply_queue_op :: "extern \<Rightarrow> queue_op \<Rightarrow> gate_state \<Rightarrow> gate_state" where
  "apply_queue_op X (QIncoming now io c) st = snd (handle_incoming_change X now io c st)"
| "apply_queue_op X (QApprove now now' io cid r) st = snd (approve_change X now now' io cid r st)"
| "apply_queue_op X (QReject now now' io cid r why) st = snd (reject_change X now now' io cid r why st)"
| "apply_queue_op X (QCommit now io cid h) st = snd (mark_committed X now io cid h st)"

abbreviation run_queue :: "extern \<Rightarrow> queue_op list \<Rightarrow> gate_state \<Rightarrow> gate_state" where
  "run_queue X ops st \<equiv> fold (apply_queue_op X) ops st"

fun op_io :: "queue_op \<Rightarrow> io_outcome" where
  "op_io (QIncoming now io c) = io"
| "op_io (QApprove now now' io cid r) = io"
| "op_io (QReject now now' io cid r why) = io"
| "op_io (QCommit now io cid h) = io"

fun is_incoming :: "queue_op \<Rightarrow> bool" where
  "is_incoming (QIncoming now io c) = True"
| "is_incoming _ = False"

text \<open>What an operation writes to the audit log in a given queue.\<close>

fun logged :: "extern \<Rightarrow> queue_op \<Rightarrow> review_queue \<Rightarrow> audit_entry list" where
  "logged X (QIncoming now io c) q =
     (if hm_len (changes q) \<ge> max_pending q
      then [rejection_entry X now (ch_id c) ''Queue capacity exceeded'' (ch_agent_name c)]
      else [submitted_entry X now c])"
| "logged X (QApprove now now' io cid r) q =
     (case fmlookup (changes q) cid of None \<Rightarrow> []
      | Some rec \<Rightarrow> [approval_entry X now' cid r (ch_description (cr_change rec))])"
| "logged X (QReject now now' io cid r why) q =
     (case fmlookup (changes q) cid of None \<Rightarrow> [] | Some rec \<Rightarrow> [rejection_entry X now' cid why r])"
| "logged X (QCommit now io cid h) q =
     (case fmlookup (changes q) cid of None \<Rightarrow> []
      | Some rec \<Rightarrow> [commit_entry X now cid h
          (case cr_reviewed_by rec of None \<Rightarrow> ''unknown'' | Some r \<Rightarrow> r)])"

definition queue_step :: "extern \<Rightarrow> queue_op \<Rightarrow> review_queue \<Rightarrow> review_queue" where
  "queue_step X op q = fst (apply_queue_op X op (q, None))"

lemmas queue_op_defs =
  handle_incoming_change_def approve_change_def reject_change_def mark_committed_def

lemmas log_op_defs = log_rejection_def log_submitted_def log_approval_def log_commit_def

text \<open>The queue moves on in the same way whatever happens to the audit file.\<close>

lemma apply_queue_op_step: "fst (apply_queue_op X op st) = queue_step X op (fst st)"
  by (cases op; cases st)
    (auto simp: queue_step_def queue_op_defs Let_def split_beta split: option.splits)

lemma apply_queue_op_ok:
  "op_io op = IoOk \<Longrightarrow> apply_queue_op X op (q, f) = (queue_step X op q, write_all X (logged X op q) f)"
  by (cases op)
    (auto simp: queue_step_def queue_op_defs log_op_defs Let_def split_beta write_all_def
      split: option.splits)

fun run_log :: "extern \<Rightarrow> queue_op list \<Rightarrow> review_queue \<Rightarrow> audit_entry list" where
  "run_log X [] q = []"
| "run_log X (op # ops) q = logged X op q @ run_log X ops (queue_step X op q)"

lemma fst_run_queue: "fst (run_queue X ops st) = fold (queue_step X) ops (fst st)"
  by (induction ops arbitrary: st) (simp_all add: apply_queue_op_step)

lemma write_all_append: "write_all X (es @ es') f = write_all X es' (write_all X es f)"
  by (simp add: write_all_def)

lemma run_queue_ok:
  "\<forall>op \<in> set ops. op_io op = IoOk \<Longrightarrow>
   run_queue X ops (q, f) = (fold (queue_step X) ops q, write_all X (run_log X ops q) f)"
proof (induction ops arbitrary: q f)
  case (Cons op ops)
  then show ?case by (simp add: apply_queue_op_ok write_all_append)
qed (simp add: write_all_def)

section \<open>Facts about the queue\<close>

lemma max_pending_step [simp]: "max_pending (queue_step X op q) = max_pending q"
  by (cases op) (auto simp: queue_step_def queue_op_defs Let_def split_beta split: option.splits)

lemma max_pending_run [simp]: "max_pending (fold (queue_step X) ops q) = max_pending q"
  by (induction ops arbitrary: q) simp_all

lemma dom_step:
  "fmdom (changes (queue_step X op q)) =
     (case op of QIncoming now io c \<Rightarrow>
        if hm_len (changes q) \<ge> max_pending q then fmdom (changes q) else finsert (ch_id c) (fmdom (changes q))
      | _ \<Rightarrow> fmdom (changes q))"
  by (cases op)
    (auto simp: queue_step_def queue_op_defs Let_def split_beta finsert_absorb fmdomI split: option.splits)

lemma len_step: "hm_len (changes (queue_step X op q)) \<le> max (max_pending q) (hm_len (changes q))"
  by (cases op)
    (auto simp: hm_len_def dom_step fcard_finsert_if)

lemma len_run: "hm_len (changes q) \<le> max_pending q \<Longrightarrow> hm_len (changes (fold (queue_step X) ops q)) \<le> max_pending q"
proof (induction ops arbitrary: q)
  case (Cons op ops)
  have "hm_len (changes (queue_step X op q)) \<le> max_pending (queue_step X op q)"
    using len_step [of X op q] Cons.prems by simp
  from Cons.IH [OF this] show ?case by simp
qed simp

lemma dom_mono: "fmdom (changes q) |\<subseteq>| fmdom (changes (fold (queue_step X) ops q))"
proof (induction ops arbitrary: q)
  case (Cons op ops)
  have "fmdom (changes q) |\<subseteq>| fmdom (changes (queue_step X op q))"
    by (cases op) (auto simp: dom_step)
  with Cons [of "queue_step X op q"] show ?case by simp
qed simp

lemma full_dom:
  "max_pending q \<le> hm_len (changes q) \<Longrightarrow>
   fmdom (changes (fold (queue_step X) ops q)) = fmdom (changes q)"
proof (induction ops arbitrary: q)
  case (Cons op ops)
  have d: "fmdom (changes (queue_step X op q)) = fmdom (changes q)"
    using Cons.prems by (cases op) (simp_all add: dom_step)
  then have "max_pending (queue_step X op q) \<le> hm_len (changes (queue_step X op q))"
    using Cons.prems by (simp add: hm_len_def)
  from Cons.IH [OF this] d show ?case by simp
qed simp

lemma len_incoming:
  "hm_len (changes (fold (queue_step X) ops q)) \<le> hm_len (changes q) + length (filter is_incoming ops)"
proof (induction ops arbitrary: q)
  case (Cons op ops)
  have "hm_len (changes (queue_step X op q)) \<le> hm_len (changes q) + (if is_incoming op then 1 else 0)"
    by (cases op) (auto simp: hm_len_def dom_step fcard_finsert_if)
  with Cons [of "queue_step X op q"] show ?case by (auto split: if_splits)
qed simp

text \<open>The processor stops at the first change that it cannot write to the audit log.\<close>

lemma process_queue_SomeD:
  assumes "process_queue X evs st = (Some e, st')"
  shows "\<exists>evs1 now io c evs2 st1. evs = evs1 @ Incoming now io c # evs2 \<and>
    process_queue X evs1 st = (None, st1) \<and> handle_incoming_change X now io c st1 = (Inl e, st')"
  using assms
proof (induction evs arbitrary: st)
  case (Cons ev evs)
  show ?case
  proof (cases ev)
    case (Incoming now io c)
    obtain r st1 where h: "handle_incoming_change X now io c st = (r, st1)"
      by (cases "handle_incoming_change X now io c st")
    show ?thesis
    proof (cases r)
      case (Inl e')
      then have "handle_incoming_change X now io c st = (Inl e, st')" using Cons.prems h Incoming by simp
      moreover have "process_queue X [] st = (None, st)" by simp
      ultimately show ?thesis unfolding Incoming by (metis append_Nil)
    next
      case (Inr out)
      with Cons.prems h Incoming have "process_queue X evs st1 = (Some e, st')" by simp
      from Cons.IH [OF this] obtain evs1 now' io' c' evs2 st2 where
        1: "evs = evs1 @ Incoming now' io' c' # evs2" "process_queue X evs1 st1 = (None, st2)"
        "handle_incoming_change X now' io' c' st2 = (Inl e, st')" by blast
      have "process_queue X (Incoming now io c # evs1) st = (None, st2)" using h Inr 1(2) by simp
      with 1 show ?thesis unfolding Incoming by (metis append_Cons)
    qed
  next
    case (Timer now ord)
    then have "process_queue X evs st = (Some e, st')"
      using Cons.prems by (simp add: check_pending_reviews_def)
    from Cons.IH [OF this] obtain evs1 now' io' c' evs2 st2 where
      1: "evs = evs1 @ Incoming now' io' c' # evs2" "process_queue X evs1 st = (None, st2)"
      "handle_incoming_change X now' io' c' st2 = (Inl e, st')" by blast
    have "process_queue X (Timer now ord # evs1) st = (None, st2)"
      using 1(2) by (simp add: check_pending_reviews_def)
    with 1 show ?thesis unfolding Timer by (metis append_Cons)
  qed
qed simp

lemma count_status_eq:
  "count_status rs (p, a, j, c) =
     (p + length (filter (\<lambda>r. cr_status r \<in> {Pending, UnderReview}) rs),
      a + length (filter (\<lambda>r. cr_status r = Approved) rs),
      j + length (filter (\<lambda>r. cr_status r = Rejected) rs),
      c + length (filter (\<lambda>r. cr_status r = Committed) rs))"
  by (induction rs arbitrary: p a j c) (auto split: change_status.splits)

lemma status_partition:
  "length rs = length (filter (\<lambda>r. cr_status r \<in> {Pending, UnderReview}) rs)
     + length (filter (\<lambda>r. cr_status r = Approved) rs) + length (filter (\<lambda>r. cr_status r = Rejected) rs)
     + length (filter (\<lambda>r. cr_status r = Committed) rs)"
proof (induction rs)
  case (Cons r rs)
  then show ?case by (cases "cr_status r") simp_all
qed simp

lemma card_status:
  assumes "iter_order ord m"
  shows "length (filter P (hm_values ord m)) = card {k. \<exists>r. fmlookup m k = Some r \<and> P r}"
proof -
  have "hm_values ord m = map (\<lambda>k. the (fmlookup m k)) ord"
    using assms by (intro hm_values_eq_map) (simp add: iter_order_def)
  then have "length (filter P (hm_values ord m)) = length (filter (\<lambda>k. P (the (fmlookup m k))) ord)"
    by (simp add: filter_map comp_def)
  also have "\<dots> = card (set (filter (\<lambda>k. P (the (fmlookup m k))) ord))"
    using assms by (intro distinct_card [symmetric]) (simp add: iter_order_def)
  also have "set (filter (\<lambda>k. P (the (fmlookup m k))) ord) = {k. \<exists>r. fmlookup m k = Some r \<and> P r}"
    using assms by (auto simp: iter_order_def fmlookup_dom_iff)
  finally show ?thesis .
qed

section \<open>The log determines the queue\<close>

text \<open>The statuses that the entries of a log describe, and those of a queue.\<close>

definition replay_entry :: "audit_entry \<Rightarrow> (string \<rightharpoonup> change_status) \<Rightarrow> (string \<rightharpoonup> change_status)" where
  "replay_entry e m =
     (if ae_event_type e = ''CHANGE_SUBMITTED'' then m(ae_change_id e \<mapsto> Pending)
      else if ae_event_type e = ''CHANGE_APPROVED'' then m(ae_change_id e \<mapsto> Approved)
      else if ae_event_type e = ''CHANGE_REJECTED'' then m(ae_change_id e \<mapsto> Rejected)
      else if ae_event_type e = ''CHANGE_COMMITTED'' then m(ae_change_id e \<mapsto> Committed)
      else m)"

definition replay :: "audit_entry list \<Rightarrow> (string \<rightharpoonup> change_status)" where
  "replay es = fold replay_entry es (\<lambda>_. None)"

definition statuses :: "review_queue \<Rightarrow> (string \<rightharpoonup> change_status)" where
  "statuses q = (\<lambda>k. map_option cr_status (fmlookup (changes q) k))"

lemmas entry_defs =
  submitted_entry_def approval_entry_def rejection_entry_def commit_entry_def replay_entry_def

lemma statuses_step:
  assumes "is_incoming op \<Longrightarrow> hm_len (changes q) < max_pending q"
  shows "statuses (queue_step X op q) = fold replay_entry (logged X op q) (statuses q)"
proof -
  have upd: "statuses (q\<lparr>changes := fmupd k r (changes q)\<rparr>) = (statuses q)(k \<mapsto> cr_status r)" for k r
    by (auto simp: statuses_def)
  show ?thesis
  proof (cases op)
    case (QIncoming now io c)
    with assms have "\<not> max_pending q \<le> hm_len (changes q)" by simp
    with QIncoming show ?thesis
      by (simp add: queue_step_def queue_op_defs Let_def split_beta upd entry_defs)
  qed (auto simp: queue_step_def queue_op_defs Let_def split_beta upd entry_defs split: option.splits)
qed

lemma statuses_run:
  "hm_len (changes q) + length (filter is_incoming ops) \<le> max_pending q \<Longrightarrow>
   statuses (fold (queue_step X) ops q) = fold replay_entry (run_log X ops q) (statuses q)"
proof (induction ops arbitrary: q)
  case (Cons op ops)
  have "hm_len (changes (queue_step X op q)) \<le> hm_len (changes q) + (if is_incoming op then 1 else 0)"
    using len_incoming [where ops = "[op]"] by (auto split: if_splits)
  with Cons.prems have "hm_len (changes (queue_step X op q)) + length (filter is_incoming ops) \<le>
      max_pending (queue_step X op q)" by (auto split: if_splits)
  note IH = Cons.IH [OF this]
  have "hm_len (changes q) < max_pending q" if "is_incoming op" using that Cons.prems by simp
  from statuses_step [OF this] IH show ?case by simp
qed simp

section \<open>Properties\<close>

text \<open>
  C1: the audit log refines to the queue. When no write fails, no more changes arrive than the queue
  has room for, and no line of the log looks like its header (as those of a change called \<open>type\<close> or \<open>version\<close>
  do, which are skipped: \<open>audit_entry_lost\<close>), the log read back at the end of any run from a new queue and
  a new file gives, replayed entry by entry, exactly the status of every change in the queue.
\<close>

theorem audit_replay_refines_queue:
  assumes "text_documented X (members (audit_header X now))"
    and "\<forall>op \<in> set ops. op_io op = IoOk" and "length (filter is_incoming ops) \<le> mx"
    and "\<forall>e \<in> set (run_log X ops (queue_new repo audit mx)).
      entry_documented X e \<and> reads_back X (entry_to_json e) \<and> \<not> header_like (entry_text X e)"
  shows "\<exists>es. read_entries X
      (snd (run_queue X ops (queue_new repo audit mx, snd (audit_new X now IoOk None)))) = Inr es \<and>
    replay es = statuses (fst (run_queue X ops (queue_new repo audit mx, snd (audit_new X now IoOk None))))"
proof -
  let ?q = "queue_new repo audit mx" and ?f = "snd (audit_new X now IoOk None)"
  let ?es = "run_log X ops ?q"
  have run: "run_queue X ops (?q, ?f) = (fold (queue_step X) ops ?q, write_all X ?es ?f)"
    using assms(2) by (rule run_queue_ok)
  have "read_entries X (write_all X ?es ?f) = Inr (filter (\<lambda>e. \<not> header_like (entry_text X e)) ?es)"
    using assms(1,4) by (intro read_written) blast+
  also have "filter (\<lambda>e. \<not> header_like (entry_text X e)) ?es = ?es"
    using assms(4) by (intro filter_True) blast
  finally have read: "read_entries X (write_all X ?es ?f) = Inr ?es" .
  have "statuses (fold (queue_step X) ops ?q) = fold replay_entry ?es (statuses ?q)"
    using assms(3) by (intro statuses_run) (simp add: queue_new_def)
  moreover have "statuses ?q = (\<lambda>_. None)" by (simp add: statuses_def queue_new_def)
  ultimately show ?thesis by (simp add: run read replay_def)
qed

definition demo_change :: "string \<Rightarrow> pending_change" where
  "demo_change cid =
     \<lparr>ch_id = cid, ch_description = ''fix'', ch_evidence = ''url'', ch_agent_name = ''agent'',
      ch_created_at = 0, ch_files = [], ch_diff = []\<rparr>"

definition demo_queue_extern :: extern where
  "demo_queue_extern = parse_extern (entry_to_json (submitted_entry json_extern 0 (demo_change ''c1'')))"

lemma demo_submitted:
  "run_log demo_queue_extern [QIncoming 0 IoOk (demo_change ''c1'')] (queue_new ''.'' ''log'' 10) =
     [submitted_entry json_extern 0 (demo_change ''c1'')]"
  by (simp add: queue_new_def demo_queue_extern_def)

lemma demo_submitted_documented:
  "entry_documented demo_queue_extern (submitted_entry json_extern 0 (demo_change ''c1''))"
  "reads_back demo_queue_extern (entry_to_json (submitted_entry json_extern 0 (demo_change ''c1'')))"
  "text_documented demo_queue_extern (members (audit_header demo_queue_extern 0))"
proof -
  have "entry_documented json_extern (submitted_entry json_extern 0 (demo_change ''c1''))"
    unfolding entry_documented_def
    by (rule json_extern_documented)
      (simp add: entry_to_json_def submitted_entry_def jopt_def ascii_plain_def json_extern_def demo_change_def)
  then show "entry_documented demo_queue_extern (submitted_entry json_extern 0 (demo_change ''c1''))"
    and "reads_back demo_queue_extern (entry_to_json (submitted_entry json_extern 0 (demo_change ''c1'')))"
    and "text_documented demo_queue_extern (members (audit_header demo_queue_extern 0))"
    by (simp_all add: demo_queue_extern_def demo_header_documented)
qed

lemma demo_submitted_not_header:
  "\<not> header_like (entry_text demo_queue_extern (submitted_entry json_extern 0 (demo_change ''c1'')))"
  by (simp add: demo_queue_extern_def header_like_def jtext_simps submitted_entry_def demo_change_def dq_def
      starts_with_def)

theorem audit_replay_refines_queue_witness:
  "\<exists>es. read_entries demo_queue_extern
      (snd (run_queue demo_queue_extern [QIncoming 0 IoOk (demo_change ''c1'')]
        (queue_new ''.'' ''log'' 10, snd (audit_new demo_queue_extern 0 IoOk None)))) = Inr es \<and>
    replay es = statuses (fst (run_queue demo_queue_extern [QIncoming 0 IoOk (demo_change ''c1'')]
        (queue_new ''.'' ''log'' 10, snd (audit_new demo_queue_extern 0 IoOk None))))"
  by (rule audit_replay_refines_queue)
    (simp_all add: demo_submitted demo_submitted_documented demo_submitted_not_header del: run_log.simps)

text \<open>
  C19: the queue never holds more changes than its capacity, no operation removes one, and once it is full
  it is full for ever: whatever is approved, rejected or committed, every later change is refused and
  the refusal is all that is logged.
\<close>

theorem full_queue_stays_full:
  assumes "st = run_queue X ops (queue_new repo audit mx, f)"
  shows "hm_len (changes (fst st)) \<le> mx \<and>
    fmdom (changes (fst st)) |\<subseteq>| fmdom (changes (fst (run_queue X ops' st))) \<and>
    (hm_len (changes (fst st)) = mx \<longrightarrow>
       fmdom (changes (fst (run_queue X ops' st))) = fmdom (changes (fst st)) \<and>
       snd (handle_incoming_change X now io c (run_queue X ops' st)) =
         (fst (run_queue X ops' st),
          snd (log_rejection X now io (ch_id c) ''Queue capacity exceeded'' (ch_agent_name c)
            (snd (run_queue X ops' st)))))"
proof -
  have q: "fst st = fold (queue_step X) ops (queue_new repo audit mx)"
    using assms by (simp add: fst_run_queue)
  have mx: "max_pending (fst st) = mx" by (simp add: q queue_new_def)
  have le: "hm_len (changes (fst st)) \<le> mx"
    using len_run [of "queue_new repo audit mx" X ops] by (simp add: q queue_new_def)
  have full: "fmdom (changes (fst (run_queue X ops' st))) = fmdom (changes (fst st))"
    "hm_len (changes (fst (run_queue X ops' st))) = mx" if "hm_len (changes (fst st)) = mx"
    using full_dom [of "fst st" X ops'] that by (simp_all add: fst_run_queue mx hm_len_def)
  have "max_pending (fst (run_queue X ops' st)) = mx" by (simp add: fst_run_queue mx)
  then have "snd (handle_incoming_change X now io c (run_queue X ops' st)) =
      (fst (run_queue X ops' st),
       snd (log_rejection X now io (ch_id c) ''Queue capacity exceeded'' (ch_agent_name c)
         (snd (run_queue X ops' st))))" if "hm_len (changes (fst st)) = mx"
    using full(2) [OF that] by (simp add: handle_incoming_change_def Let_def split_beta)
  with le full dom_mono [of "fst st" X ops'] show ?thesis by (simp add: fst_run_queue)
qed

theorem full_queue_stays_full_witness:
  "hm_len (changes (fst (run_queue json_extern [QIncoming 0 IoOk (demo_change ''c1''), QIncoming 1 IoOk (demo_change ''c2'')]
     (queue_new ''.'' ''log'' 1, Some [])))) \<le> 1"
  using full_queue_stays_full [OF refl] by blast

text \<open>
  A commit needs no approval. For every change in the queue, whatever its status, also a pending or a
  rejected one, marking it committed succeeds and is logged as committed, under the reviewer who
  decided last or \<open>unknown\<close>.
\<close>

lemma commit_needs_no_approval:
  assumes "fmlookup (changes q) cid = Some rec"
  shows "\<exists>q' c'. mark_committed X now IoOk cid hash (q, Some c) = (Inr (), (q', Some c')) \<and>
    statuses q' = (statuses q)(cid \<mapsto> Committed) \<and>
    c' = c @ entry_text X (commit_entry X now cid hash
      (case cr_reviewed_by rec of None \<Rightarrow> ''unknown'' | Some r \<Rightarrow> r)) @ [newline]"
  using assms
  by (simp add: mark_committed_def Let_def split_beta log_commit_def append_entry_def statuses_def fun_eq_iff)

definition rejected_queue :: review_queue where
  "rejected_queue =
     fold (queue_step json_extern)
       [QIncoming 0 IoOk (demo_change ''c1''), QReject 1 1 IoOk ''c1'' ''human'' ''no'']
       (queue_new ''.'' ''log'' 10)"

lemma rejected_queue_status:
  "\<exists>rec. fmlookup (changes rejected_queue) ''c1'' = Some rec \<and> cr_status rec = Rejected"
  by (simp add: rejected_queue_def queue_step_def queue_op_defs queue_new_def demo_change_def Let_def split_beta)

lemma commit_needs_no_approval_witness:
  "statuses rejected_queue ''c1'' = Some Rejected \<and>
   statuses (fst (snd (mark_committed json_extern 2 IoOk ''c1'' ''abc'' (rejected_queue, Some [])))) ''c1'' = Some Committed"
proof -
  obtain rec where rec: "fmlookup (changes rejected_queue) ''c1'' = Some rec" "cr_status rec = Rejected"
    using rejected_queue_status by blast
  obtain q' c' where m: "mark_committed json_extern 2 IoOk ''c1'' ''abc'' (rejected_queue, Some []) = (Inr (), (q', Some c'))"
    and s: "statuses q' = (statuses rejected_queue)(''c1'' \<mapsto> Committed)"
    using commit_needs_no_approval [OF rec(1), of json_extern 2 "''abc''" "[]"] by blast
  have "statuses rejected_queue ''c1'' = Some Rejected" using rec by (simp add: statuses_def)
  with m s show ?thesis by simp
qed

text \<open>
  A decision takes effect without its audit entry. What an operation does to the queue does not depend
  on the audit file or on the outcome of writing to it; so when the log cannot be opened, approving a
  known change reports an error, leaves the file as it was, and the change is approved.
\<close>

lemma decision_without_audit_entry:
  assumes "fmlookup (changes q) cid = Some rec"
  shows "fst (apply_queue_op X op (q, f)) = fst (apply_queue_op X op (q, f')) \<and>
    (\<exists>q' e. approve_change X now now' OpenFails cid reviewer (q, f) = (Inl e, (q', f)) \<and>
       statuses q' = (statuses q)(cid \<mapsto> Approved))"
proof -
  have "fst (apply_queue_op X op (q, f)) = fst (apply_queue_op X op (q, f'))"
    by (simp add: apply_queue_op_step)
  moreover have "log_approval X now' OpenFails cid reviewer d f = (Inl (Err ''open''), f)" for d
    by (cases f) (simp_all add: log_approval_def append_entry_def)
  ultimately show ?thesis
    using assms by (simp add: approve_change_def Let_def split_beta statuses_def fun_eq_iff)
qed

lemma decision_without_audit_entry_witness:
  "\<exists>q' e. approve_change json_extern 2 2 OpenFails ''c1'' ''human'' (rejected_queue, Some []) = (Inl e, (q', Some [])) \<and>
     statuses q' = (statuses rejected_queue)(''c1'' \<mapsto> Approved)"
proof -
  obtain rec where "fmlookup (changes rejected_queue) ''c1'' = Some rec" using rejected_queue_status by blast
  from decision_without_audit_entry [OF this] show ?thesis by blast
qed

text \<open>
  The status counts are right: the total is the sum of the four counts, and each count is the number of
  the changes with that status, a change under review being counted as pending.
\<close>

lemma queue_status_counts:
  assumes "iter_order ord (changes q)"
  shows "let s = queue_status_of ord q in
    qs_total s = qs_pending s + qs_approved s + qs_rejected s + qs_committed s \<and>
    qs_pending s = card {k. statuses q k \<in> {Some Pending, Some UnderReview}} \<and>
    qs_approved s = card {k. statuses q k = Some Approved} \<and>
    qs_rejected s = card {k. statuses q k = Some Rejected} \<and>
    qs_committed s = card {k. statuses q k = Some Committed} \<and> qs_capacity s = max_pending q"
proof -
  have "{k. statuses q k = Some z} = {k. \<exists>r. fmlookup (changes q) k = Some r \<and> cr_status r = z}" for z
    by (auto simp: statuses_def)
  moreover have "{k. statuses q k \<in> {Some Pending, Some UnderReview}} =
      {k. \<exists>r. fmlookup (changes q) k = Some r \<and> cr_status r \<in> {Pending, UnderReview}}"
    by (auto simp: statuses_def)
  moreover have "hm_len (changes q) = length (hm_values ord (changes q))"
    using length_hm_values [OF assms] by simp
  ultimately show ?thesis
    using status_partition [of "hm_values ord (changes q)"]
    by (simp only: queue_status_of_def count_status_eq prod.case queue_status.select_convs Let_def
        card_status [OF assms] add_0 simp_thms)
qed

lemma queue_status_counts_witness:
  "qs_total (queue_status_of [''c1''] rejected_queue) =
     qs_pending (queue_status_of [''c1''] rejected_queue) + qs_approved (queue_status_of [''c1''] rejected_queue)
     + qs_rejected (queue_status_of [''c1''] rejected_queue) + qs_committed (queue_status_of [''c1''] rejected_queue)"
proof -
  have "iter_order [''c1''] (changes rejected_queue)"
    by (simp add: iter_order_def rejected_queue_def queue_step_def queue_op_defs queue_new_def demo_change_def
        Let_def split_beta)
  from queue_status_counts [OF this] show ?thesis by (simp only: Let_def simp_thms)
qed

end
