(* ===== verification/Gateway_Tests.thy ===== *)
theory Gateway_Tests
  imports Review_Queue
begin

text \<open>
  The unit tests of \<open>seb/human_touch/src\<close>, each a definition that says that its assertions hold, and the
  theorem that all of them hold in the model. An \<open>unwrap\<close> of a test fails it on an error. A
  \<open>NamedTempFile\<close> is a file that exists and is empty, so the log of a test has no header.
\<close>

section \<open>Tests of audit\_log.rs\<close>

definition audit_test_change :: "timestamp \<Rightarrow> string \<Rightarrow> pending_change" where
  "audit_test_change now cid =
     \<lparr>ch_id = cid, ch_description = ''Test change'', ch_evidence = ''https://example.com'',
      ch_agent_name = ''test-agent'', ch_created_at = now, ch_files = [], ch_diff = []\<rparr>"

definition test_audit_log_creation :: "extern \<Rightarrow> (nat \<Rightarrow> timestamp) \<Rightarrow> bool" where
  "test_audit_log_creation X clk \<longleftrightarrow>
     (case audit_new X (clk 0) IoOk (Some []) of
        (Inl e, f) \<Rightarrow> False
      | (Inr _, f) \<Rightarrow>
          fst (log_submitted X (clk 2) IoOk (audit_test_change (clk 1) ''test-123'') f) = Inr ())"

definition test_audit_entries :: "extern \<Rightarrow> (nat \<Rightarrow> timestamp) \<Rightarrow> bool" where
  "test_audit_entries X clk \<longleftrightarrow>
     (case audit_new X (clk 0) IoOk (Some []) of
        (Inl e, f) \<Rightarrow> False
      | (Inr _, f) \<Rightarrow>
          (case log_submitted X (clk 2) IoOk (audit_test_change (clk 1) ''test-456'') f of
             (Inl e, f) \<Rightarrow> False
           | (Inr _, f) \<Rightarrow>
               (case log_approval X (clk 3) IoOk ''test-456'' ''reviewer@example.com'' ''Looks good'' f of
                  (Inl e, f) \<Rightarrow> False
                | (Inr _, f) \<Rightarrow>
                    (case read_entries X f of
                       Inl e \<Rightarrow> False
                     | Inr es \<Rightarrow>
                         length es \<ge> 2 \<and>
                         List.find (\<lambda>e. ae_event_type e = ''CHANGE_SUBMITTED'') es \<noteq> None \<and>
                         List.find (\<lambda>e. ae_event_type e = ''CHANGE_APPROVED'') es \<noteq> None))))"

section \<open>Tests of commit\_gateway.rs\<close>

definition is_ok :: "'a res \<Rightarrow> bool" where
  "is_ok r \<longleftrightarrow> (case r of Inl e \<Rightarrow> False | Inr v \<Rightarrow> True)"

definition test_verify_approval_required :: bool where
  "test_verify_approval_required \<longleftrightarrow>
     (let g = gateway_new ''.'' 3600
      in is_ok (verify_approval_required g ''test-123'') \<and> \<not> is_ok (verify_approval_required g []))"

definition test_create_approval_certificate :: "extern \<Rightarrow> timestamp \<Rightarrow> bool" where
  "test_create_approval_certificate X now \<longleftrightarrow>
     (case create_approval_certificate X now (gateway_new ''.'' 3600) ''change-123'' ''reviewer@example.com''
             ''https://example.com/evidence'' of
        Inl e \<Rightarrow> False
      | Inr cert \<Rightarrow> cert_change_id cert = ''change-123'' \<and> cert_reviewer cert = ''reviewer@example.com'' \<and>
          cert_signature cert \<noteq> [])"

definition test_check_no_auto_commit :: bool where
  "test_check_no_auto_commit \<longleftrightarrow>
     \<not> is_ok (check_no_auto_commit ''feat: [auto] add feature'') \<and>
     \<not> is_ok (check_no_auto_commit []) \<and>
     \<not> is_ok (check_no_auto_commit ''feat: add feature'') \<and>
     is_ok (check_no_auto_commit
       (''feat: add feature'' @ [newline, newline] @ ''Approved-By: Human''))"

section \<open>Tests of review\_queue.rs\<close>

text \<open>The queue of the tests. \<open>ReviewQueue::new\<close> keeps the path of the log and opens nothing.\<close>

definition test_queue :: review_queue where
  "test_queue = queue_new ''.'' ''audit.json'' 100"

text \<open>The two methods under test take \<open>&self\<close> and do not look at it.\<close>

definition test_format_review_request :: "extern \<Rightarrow> timestamp \<Rightarrow> bool" where
  "test_format_review_request X now \<longleftrightarrow>
     (let queue = test_queue;
          change = \<lparr>ch_id = ''test-123'', ch_description = ''Add new feature'',
            ch_evidence = ''https://example.com/evidence'', ch_agent_name = ''test-agent'',
            ch_created_at = now, ch_files = [''src/main.rs''], ch_diff = ''some diff''\<rparr>;
          formatted = format_review_request X change
      in str_contains formatted ''test-123'' \<and> str_contains formatted ''Add new feature'')"

definition test_indent_text :: bool where
  "test_indent_text \<longleftrightarrow>
     (let queue = test_queue;
          txt = ''line1'' @ [newline] @ ''line2''; indented = indent_text txt 2
      in starts_with indented ''  line1'')"

section \<open>All tests hold\<close>

lemma gateway_tests:
  assumes "digest_is_hex64 X"
  shows "test_verify_approval_required" "test_create_approval_certificate X now" "test_check_no_auto_commit"
proof -
  have "length (blake3_hex X s) = 64" for s using assms by (simp add: digest_is_hex64_def)
  then have "blake3_hex X s \<noteq> []" for s by (metis list.size(3) zero_neq_numeral)
  then show "test_create_approval_certificate X now"
    by (simp add: test_create_approval_certificate_def create_approval_certificate_def Let_def)
  show "test_verify_approval_required"
    by (simp add: test_verify_approval_required_def verify_approval_required_def is_ok_def Let_def)
  show "test_check_no_auto_commit"
  proof -
    let ?m = "''feat: add feature'' @ [newline, newline] @ ''Approved-By: Human''"
    have "CHR ''f'' \<in> set ?m" by simp
    then have "trim ?m \<noteq> []" using trim_keeps [of "CHR ''f''" ?m] by (auto simp: space_bytes_def white_space_def)
    then show ?thesis
      by (simp add: test_check_no_auto_commit_def check_no_auto_commit_def is_ok_def starts_with_def newline_def)
  qed
qed

lemma audit_test_creation: "test_audit_log_creation X clk"
  by (simp add: test_audit_log_creation_def audit_new_def log_submitted_def append_entry_def)

lemma request_contains_id: "sublist (ch_id c) (format_review_request X c)"
  unfolding sublist_def
  by (intro exI [of _ "[newline] @ box_rule (CHR 0x8C) (CHR 0x90)
      @ box_row (str_repeat '' '' 19 @ ''HUMAN REVIEW REQUEST'' @ str_repeat '' '' 23 @ box (CHR 0x82))
      @ box_rule (CHR 0x9C) (CHR 0xA4) @ box (CHR 0x82) @ '' ID:       ''"] exI)
    (simp add: format_review_request_def box_row_def)

lemma request_contains_description: "sublist (indent_text (ch_description c) 2) (format_review_request X c)"
  unfolding sublist_def
  by (intro exI [of _ "[newline] @ box_rule (CHR 0x8C) (CHR 0x90)
      @ box_row (str_repeat '' '' 19 @ ''HUMAN REVIEW REQUEST'' @ str_repeat '' '' 23 @ box (CHR 0x82))
      @ box_rule (CHR 0x9C) (CHR 0xA4) @ box_row ('' ID:       '' @ ch_id c)
      @ box_row ('' Agent:    '' @ ch_agent_name c) @ box_row ('' Time:     '' @ ts_display X (ch_created_at c))
      @ box_row ('' Status:   '' @ [CHR 0xE2, CHR 0x8F, CHR 0xB3] @ '' AWAITING REVIEW'')
      @ box_rule (CHR 0x9C) (CHR 0xA4) @ box_row '' DESCRIPTION:'' @ box (CHR 0x82) @ '' ''"] exI)
    (simp add: format_review_request_def box_row_def)

lemma indent_line: "newline \<notin> set l \<Longrightarrow> l \<noteq> [] \<Longrightarrow> indent_text l 2 = ''  '' @ l"
  by (simp add: indent_text_def lines_single str_repeat_def numeral_2_eq_2)

lemma queue_tests: "test_format_review_request X now" "test_indent_text"
proof -
  have "lines (''line1'' @ newline # ''line2'') = [''line1'', ''line2'']"
    by (subst lines_cons) (simp_all add: lines_single newline_def strip_cr_def)
  then show "test_indent_text"
    by (simp add: test_indent_text_def indent_text_def str_repeat_def starts_with_def numeral_2_eq_2)
  let ?c = "\<lparr>ch_id = ''test-123'', ch_description = ''Add new feature'',
    ch_evidence = ''https://example.com/evidence'', ch_agent_name = ''test-agent'',
    ch_created_at = now, ch_files = [''src/main.rs''], ch_diff = ''some diff''\<rparr>"
  have "sublist ''test-123'' (format_review_request X ?c)"
    using request_contains_id [of ?c X] by simp
  moreover have "sublist (''  '' @ ''Add new feature'' @ []) (format_review_request X ?c)"
    using request_contains_description [of ?c X] by (simp add: indent_line newline_def)
  then have "sublist ''Add new feature'' (format_review_request X ?c)" by (rule sublist_infix)
  ultimately show "test_format_review_request X now"
    unfolding test_format_review_request_def by (simp add: str_contains_iff Let_def)
qed

text \<open>The two entries the audit test writes, and what it needs of the printer and the parser.\<close>

definition audit_test_entries :: "extern \<Rightarrow> (nat \<Rightarrow> timestamp) \<Rightarrow> audit_entry list" where
  "audit_test_entries X clk =
     [submitted_entry X (clk 2) (audit_test_change (clk 1) ''test-456''),
      approval_entry X (clk 3) ''test-456'' ''reviewer@example.com'' ''Looks good'']"

definition prints_test_entries :: "extern \<Rightarrow> (nat \<Rightarrow> timestamp) \<Rightarrow> bool" where
  "prints_test_entries X clk \<longleftrightarrow>
     list_all (\<lambda>e. entry_documented X e \<and> reads_back X (entry_to_json e) \<and> \<not> header_like (entry_text X e))
       (audit_test_entries X clk)"

lemma audit_test_read:
  assumes "prints_test_entries X clk"
  shows "test_audit_entries X clk"
proof -
  let ?es = "audit_test_entries X clk"
  have ok: "\<forall>e \<in> set ?es. entry_documented X e \<and> reads_back X (entry_to_json e)"
    using assms by (auto simp: prints_test_entries_def list_all_iff)
  obtain c where c: "write_all X ?es (Some []) = Some c" "log_ok c" "lines c = lines [] @ map (entry_text X) ?es"
    using write_all_ok [of "[]" ?es X] ok by (auto simp: log_ok_def)
  have "filter (\<lambda>e. \<not> header_like (entry_text X e)) ?es = ?es"
    using assms by (auto simp: prints_test_entries_def list_all_iff intro: filter_True)
  then have read: "read_entries X (Some c) = Inr ?es"
    using c read_lines_entries [OF ok] by (simp add: read_entries_def log_ok_def)
  show ?thesis
    using c(1) read
    by (simp add: test_audit_entries_def audit_new_def log_submitted_def log_approval_def append_entry_def
        write_all_def audit_test_entries_def submitted_entry_def approval_entry_def)
qed

section \<open>An instance\<close>

text \<open>The printer of the witnesses, with a parser that knows the texts of the two entries.\<close>

definition tests_extern :: extern where
  "tests_extern =
     json_extern\<lparr>json_parse := (\<lambda>s. List.find (\<lambda>j. jtext j = s)
       (map entry_to_json (audit_test_entries json_extern (\<lambda>k. 0))))\<rparr>"

lemma tests_extern_simps [simp]:
  "json_text tests_extern = jtext" "blake3_hex tests_extern = blake3_hex demo_extern"
  "audit_test_entries tests_extern = audit_test_entries json_extern"
  "text_documented tests_extern ms \<longleftrightarrow> text_documented json_extern ms"
  by (simp_all add: tests_extern_def json_extern_def audit_test_entries_def submitted_entry_def
      approval_entry_def text_documented_def fun_eq_iff)

lemma tests_extern_digest: "digest_is_hex64 tests_extern"
  using digest_hex64_demo by (simp add: digest_is_hex64_def)

lemma test_entry_texts_differ:
  "jtext (entry_to_json (submitted_entry json_extern 0 (audit_test_change 0 ''test-456''))) \<noteq>
   jtext (entry_to_json (approval_entry json_extern 0 ''test-456'' ''reviewer@example.com'' ''Looks good''))"
  by (simp add: entry_to_json_def submitted_entry_def approval_entry_def jopt_def json_extern_def jquote_def
      jescape_def)

lemma tests_extern_prints: "prints_test_entries tests_extern (\<lambda>k. 0)"
proof -
  have doc: "entry_documented tests_extern e" if "e \<in> set (audit_test_entries json_extern (\<lambda>k. 0))" for e
    unfolding entry_documented_def tests_extern_simps
    by (rule json_extern_documented, use that in \<open>auto simp: audit_test_entries_def entry_to_json_def
        submitted_entry_def approval_entry_def audit_test_change_def jopt_def ascii_plain_def json_extern_def\<close>)
  moreover have "reads_back tests_extern (entry_to_json e)"
    if "e \<in> set (audit_test_entries json_extern (\<lambda>k. 0))" for e
    using that test_entry_texts_differ
    by (auto simp: audit_test_entries_def reads_back_def tests_extern_def json_extern_def)
  moreover have "\<not> header_like (entry_text tests_extern e)"
    if "e \<in> set (audit_test_entries json_extern (\<lambda>k. 0))" for e
    using that
    by (auto simp: audit_test_entries_def header_like_def dq_def starts_with_def entry_to_json_def
        submitted_entry_def approval_entry_def audit_test_change_def jopt_def json_extern_def jquote_def jescape_def)
  ultimately show ?thesis by (simp add: prints_test_entries_def list_all_iff)
qed

end
