(* ===== verification/Shrewd_Rtx.thy ===== *)
theory Shrewd_Rtx
  imports Rust_Floats SEB_Prelude
begin

text \<open>
  \<open>seb/runtime/shrewd/shrewd_rtx.rs\<close>: the verdict engine, in the binary32 arithmetic of the code. The
  presence of the model file and of a CUDA device are arguments. An array of four or eight floats is a
  list of that length; an index out of range, and \<open>unwrap\<close> on a comparison with a not-a-number, panic.
\<close>

section \<open>Data\<close>

datatype verdict = SkerProven | SkerShrewd | SkerCausal | SkerNoise

definition from_idx :: "nat \<Rightarrow> verdict" where
  "from_idx i =
     (if i = 0 then SkerProven else if i = 1 then SkerShrewd else if i = 2 then SkerCausal else SkerNoise)"

record tick_features =
  verdict_enc :: fl
  has_proof :: fl
  agent_hash :: fl
  tick_delta :: fl
  ts_hour :: fl
  op_hash :: fl
  is_sovereign :: fl
  seal_entropy :: fl

definition to_array :: "tick_features \<Rightarrow> fl list" where
  "to_array f =
     [verdict_enc f, has_proof f, agent_hash f, tick_delta f, ts_hour f, op_hash f, is_sovereign f,
      seal_entropy f]"

record rtx_engine =
  onnx_session :: "string option"
  cuda_available :: bool
  window_size :: nat

definition detect_cuda :: "bool \<Rightarrow> bool \<Rightarrow> bool \<Rightarrow> bool" where
  "detect_cuda env_set nvidia0 dxg \<longleftrightarrow> env_set \<or> nvidia0 \<or> dxg"

definition engine_new :: "(string \<Rightarrow> bool) \<Rightarrow> bool \<Rightarrow> string option \<Rightarrow> rtx_engine" where
  "engine_new file_exists cuda model_path =
     \<lparr>onnx_session = (case model_path of None \<Rightarrow> None | Some p \<Rightarrow> if file_exists p then Some p else None),
      cuda_available = cuda, window_size = 1000\<rparr>"

record prediction =
  pr_verdict :: verdict
  pr_confidence :: fl
  pr_probs :: "fl list"
  pr_backend :: string
  pr_cuda :: bool

record governance_command =
  gc_command :: string
  gc_target :: "fl option"
  gc_scope :: string
  gc_rationale :: string
  gc_expires_ticks :: u32

section \<open>Inference\<close>

fun write_rows :: "nat \<Rightarrow> (nat \<times> tick_features) list \<Rightarrow> fl list list \<Rightarrow> fl list list res" where
  "write_rows offset [] out = Inr out"
| "write_rows offset ((i, f) # rest) out =
     (if offset + i < length out then write_rows offset rest (out[offset + i := to_array f])
      else Inl Panic)"

definition prepare_features :: "rtx_engine \<Rightarrow> tick_features list \<Rightarrow> fl list list res" where
  "prepare_features e window =
     (let out = replicate (window_size e) (replicate 8 (Fin False 0));
          start = (if length window \<ge> window_size e then length window - window_size e else 0);
          src = drop start window;
          offset = window_size e - length src
      in write_rows offset (enumerate 0 src) out)"

definition tick_index :: "fl \<Rightarrow> nat" where
  "tick_index x = min (fl_to_usize (fl_round (fl_mul binary32 x (Fin False 3)))) 3"

definition count_verdicts :: "fl list list \<Rightarrow> u32 list" where
  "count_verdicts rows =
     fold (\<lambda>f counts. counts[tick_index (f ! 0) := counts ! tick_index (f ! 0) + 1]) rows [0, 0, 0, 0]"

definition fl_of_u32 :: "u32 \<Rightarrow> fl" where
  "fl_of_u32 w = fl_of_rat binary32 (of_nat (unat w))"

definition verdict_probs :: "fl list list \<Rightarrow> fl list" where
  "verdict_probs rows =
     (let total = fl_of_rat binary32 (of_nat (length rows));
          counts = count_verdicts rows
      in [fl_div binary32 (fl_of_u32 (counts ! 0)) total, fl_div binary32 (fl_of_u32 (counts ! 1)) total,
          fl_div binary32 (fl_of_u32 (counts ! 2)) total, fl_div binary32 (fl_of_u32 (counts ! 3)) total])"

text \<open>\<open>max_by\<close> keeps the later of two elements unless the earlier one is greater.\<close>

fun max_by_from :: "nat \<times> fl \<Rightarrow> (nat \<times> fl) list \<Rightarrow> (nat \<times> fl) res" where
  "max_by_from best [] = Inr best"
| "max_by_from best (x # xs) =
     (case fl_partial_cmp (snd best) (snd x) of
        None \<Rightarrow> Inl Panic
      | Some Greater \<Rightarrow> max_by_from best xs
      | Some c \<Rightarrow> max_by_from x xs)"

definition best_index :: "fl list \<Rightarrow> nat res" where
  "best_index probs =
     (case enumerate 0 probs of
        [] \<Rightarrow> Inr 3
      | x # xs \<Rightarrow> res_bind (max_by_from x xs) (\<lambda>(i, p). Inr i))"

definition rule_based_predict :: "rtx_engine \<Rightarrow> fl list list \<Rightarrow> prediction res" where
  "rule_based_predict e rows =
     (let probs = verdict_probs rows in
      res_bind (best_index probs) (\<lambda>best.
        if best < length probs
        then Inr \<lparr>pr_verdict = from_idx best, pr_confidence = probs ! best, pr_probs = probs,
                  pr_backend = (if onnx_session e \<noteq> None then ''onnx'' else ''rule_based''),
                  pr_cuda = cuda_available e\<rparr>
        else Inl Panic))"

definition onnx_predict :: "rtx_engine \<Rightarrow> fl list list \<Rightarrow> string \<Rightarrow> prediction res" where
  "onnx_predict e rows sess = rule_based_predict e rows"

definition predict :: "rtx_engine \<Rightarrow> tick_features list \<Rightarrow> prediction res" where
  "predict e window =
     res_bind (prepare_features e window) (\<lambda>rows.
       case onnx_session e of
         Some sess \<Rightarrow> onnx_predict e rows sess
       | None \<Rightarrow> rule_based_predict e rows)"

section \<open>Commands\<close>

definition to_governance_command :: "prediction \<Rightarrow> string \<Rightarrow> governance_command" where
  "to_governance_command p dominant_agent =
     (if pr_verdict p = SkerProven \<and> fl_lt (fl_of_rat binary32 (80 / 100)) (pr_confidence p) then
        \<lparr>gc_command = ''LOWER_SHREWD_THRESHOLD'', gc_target = Some (fl_of_rat binary32 (80 / 100)),
         gc_scope = dominant_agent, gc_rationale = ''sustained high-confidence proven verdicts'',
         gc_expires_ticks = 100\<rparr>
      else if pr_verdict p = SkerNoise then
        \<lparr>gc_command = ''RAISE_ZERO_TRUST'', gc_target = Some (Fin False 1), gc_scope = ''all'',
         gc_rationale = ''noise rate rising '' @ [CHR 0xE2, CHR 0x80, CHR 0x94] @ '' elevate scrutiny'',
         gc_expires_ticks = 50\<rparr>
      else
        \<lparr>gc_command = ''MAINTAIN_POLICY'', gc_target = None, gc_scope = dominant_agent,
         gc_rationale = ''window stable'', gc_expires_ticks = 500\<rparr>)"

text \<open>One turn of the inference loop: the command that is published, if any.\<close>

definition inference_turn :: "rtx_engine \<Rightarrow> tick_features list \<Rightarrow> governance_command option res" where
  "inference_turn e w =
     (if length w < 10 then Inr None
      else res_bind (predict e w) (\<lambda>p. Inr (Some (to_governance_command p ''unknown''))))"

section \<open>The consumer\<close>

text \<open>
  \<open>run_shrewd_rtx\<close>: an engine, a window that is created empty, and a loop with one turn per tick of the
  timer. The function never returns with the feature \<open>nats-bus\<close>, so the state after any number of ticks is
  modelled; the bus receives the commands in order. Without the feature it returns at once.
\<close>

record rtx_consumer =
  rc_window :: "tick_features list"
  rc_published :: "governance_command list"

fun rtx_loop :: "nat \<Rightarrow> rtx_engine \<Rightarrow> rtx_consumer \<Rightarrow> rtx_consumer res" where
  "rtx_loop 0 e s = Inr s"
| "rtx_loop (Suc ticks) e s =
     res_bind (inference_turn e (rc_window s)) (\<lambda>sent.
       rtx_loop ticks e (case sent of None \<Rightarrow> s
         | Some c \<Rightarrow> s\<lparr>rc_published := rc_published s @ [c]\<rparr>))"

definition run_shrewd_rtx ::
    "bool \<Rightarrow> (string \<Rightarrow> bool) \<Rightarrow> bool \<Rightarrow> string option \<Rightarrow> nat \<Rightarrow> rtx_consumer res" where
  "run_shrewd_rtx nats_bus file_exists cuda model_path ticks =
     (let s = \<lparr>rc_window = [], rc_published = []\<rparr>
      in if nats_bus then rtx_loop ticks (engine_new file_exists cuda model_path) s else Inr s)"

section \<open>Facts about the window\<close>

lemma write_rows_block:
  assumes "length pre = offset + n" and "length mid = length src"
  shows "write_rows offset (enumerate n src) (pre @ mid @ post) = Inr (pre @ map to_array src @ post)"
  using assms
proof (induction src arbitrary: n pre mid)
  case (Cons f src)
  then obtain m mid' where mid: "mid = m # mid'" by (cases mid) auto
  have "write_rows offset (enumerate (Suc n) src) ((pre @ [to_array f]) @ mid' @ post) =
      Inr ((pre @ [to_array f]) @ map to_array src @ post)"
    using Cons.prems mid by (intro Cons.IH) simp_all
  moreover have "(pre @ mid @ post)[offset + n := to_array f] = (pre @ [to_array f]) @ mid' @ post"
    using Cons.prems(1) by (simp add: mid list_update_append)
  ultimately show ?case using Cons.prems(1) by (simp add: mid)
qed simp

lemma prepare_features_eq:
  "prepare_features e w =
     Inr (replicate (window_size e - length w) (replicate 8 (Fin False 0))
          @ map to_array (drop (length w - window_size e) w))"
proof -
  let ?n = "window_size e" and ?z = "replicate 8 (Fin False 0)"
  let ?src = "drop (length w - ?n) w"
  have start: "(if length w \<ge> ?n then length w - ?n else 0) = length w - ?n" by simp
  have len: "length ?src \<le> ?n" and off: "?n - length ?src = ?n - length w" by auto
  have out: "replicate ?n ?z = replicate (?n - length ?src) ?z @ replicate (length ?src) ?z @ []"
    using len by (simp flip: replicate_add)
  have "write_rows (?n - length ?src) (enumerate 0 ?src) (replicate ?n ?z) =
      Inr (replicate (?n - length ?src) ?z @ map to_array ?src @ [])"
    unfolding out by (rule write_rows_block) simp_all
  then show ?thesis unfolding prepare_features_def Let_def start off by simp
qed

lemma length_prepared: "prepare_features e w = Inr rows \<Longrightarrow> length rows = window_size e"
  by (auto simp: prepare_features_eq)

section \<open>Facts about the counts\<close>

definition tick_count :: "nat \<Rightarrow> fl list list \<Rightarrow> nat" where
  "tick_count k rows = length (filter (\<lambda>f. tick_index (f ! 0) = k) rows)"

lemma tick_index_less: "tick_index x < 4"
  by (simp add: tick_index_def)

lemma tick_count_le: "tick_count k rows \<le> length rows"
  by (simp add: tick_count_def)

lemma tick_counts_sum:
  "tick_count 0 rows + tick_count 1 rows + tick_count 2 rows + tick_count 3 rows = length rows"
proof (induction rows)
  case (Cons f rows)
  have "tick_index (f ! 0) \<in> {0, 1, 2, 3}" using tick_index_less [of "f ! 0"] by auto
  then show ?case using Cons by (auto simp: tick_count_def)
qed (simp add: tick_count_def)

lemma count_fold:
  assumes "length cs = 4" and "\<forall>k < 4. unat (cs ! k) + length rows < 2 ^ 32" and "k < 4"
  shows "unat (fold (\<lambda>f counts. counts[tick_index (f ! 0) := counts ! tick_index (f ! 0) + 1]) rows cs ! k :: u32) =
    unat (cs ! k) + tick_count k rows"
  using assms(1,2)
proof (induction rows arbitrary: cs)
  case (Cons f rows)
  let ?j = "tick_index (f ! 0)"
  let ?cs = "cs[?j := cs ! ?j + 1]"
  have j: "?j < 4" by (rule tick_index_less)
  have "unat (cs ! ?j) + 1 < 2 ^ 32" using Cons.prems(2) j by force
  then have inc: "unat (cs ! ?j + 1) = unat (cs ! ?j) + 1"
    by (simp add: unat_word_ariths)
  have nth: "unat (?cs ! l) = unat (cs ! l) + (if l = ?j then 1 else 0)" if "l < 4" for l
    using that j Cons.prems(1) inc by (simp add: nth_list_update)
  have "\<forall>l < 4. unat (?cs ! l) + length rows < 2 ^ 32"
    using Cons.prems(2) nth by (auto split: if_splits)
  from Cons.IH [OF _ this] Cons.prems(1) nth [OF assms(3)] show ?case by (auto simp: tick_count_def)
qed (simp add: tick_count_def)

lemma count_verdicts_nth:
  "length rows < 2 ^ 32 \<Longrightarrow> k < 4 \<Longrightarrow> unat (count_verdicts rows ! k) = tick_count k rows"
  unfolding count_verdicts_def
  by (subst count_fold) (auto simp: nth_Cons split: nat.splits)

section \<open>Facts about the probabilities\<close>

lemma prec_binary32: "fl_prec binary32 = 24"
  by (simp add: binary32_def)

definition prob :: "nat \<Rightarrow> nat \<Rightarrow> rat" where
  "prob c n = rnd binary32 (of_nat c / of_nat n)"

lemma prob_error:
  assumes "c \<le> n" and "0 < n"
  shows "\<bar>prob c n - of_nat c / of_nat n\<bar> \<le> 1 / 2 ^ 25"
proof -
  let ?q = "of_nat c / of_nat n :: rat"
  consider "c = 0" | "c = n" | "0 < c" "c < n" using assms(1) by linarith
  then show ?thesis
  proof cases
    case 1
    then show ?thesis by (simp add: prob_def)
  next
    case 2
    have "rnd binary32 (of_nat 1) = of_nat 1"
      by (rule rnd_of_nat [OF regular_formats(1)]) (simp add: binary32_def)
    with 2 assms(2) show ?thesis by (simp add: prob_def)
  next
    case 3
    then have "0 < ?q" "?q < 2 powi 0" by simp_all
    then have "ilog2 ?q < 0" by (rule ilog2_less)
    then have "ulp_exp binary32 ?q \<le> -24" by (simp add: ulp_exp_def binary32_def)
    then have "(2 :: rat) powi ulp_exp binary32 ?q \<le> 2 powi (-24)" by (intro power_int_increasing) simp_all
    also have "\<dots> = 1 / 2 ^ 24" by simp
    finally show ?thesis using rnd_error [of binary32 ?q] by (simp add: prob_def)
  qed
qed

lemma prob_strict_mono:
  assumes "c < d" and "d \<le> n" and "n < 2 ^ 24"
  shows "prob c n < prob d n"
proof -
  have n: "0 < n" using assms by simp
  have "(of_nat n :: rat) < of_nat (2 ^ 24)" using assms(3) by (simp only: of_nat_less_iff)
  then have "1 / 2 ^ 24 < 1 / (of_nat n :: rat)" using n by (simp add: field_simps)
  also have "1 / (of_nat n :: rat) \<le> (of_nat d - of_nat c) / of_nat n"
  proof -
    have "(of_nat (c + 1) :: rat) \<le> of_nat d" using assms(1) by (simp only: of_nat_le_iff)
    then show ?thesis using n by (intro divide_right_mono) simp_all
  qed
  finally have "1 / 2 ^ 24 < of_nat d / of_nat n - of_nat c / (of_nat n :: rat)"
    by (simp add: diff_divide_distrib)
  moreover have "\<bar>prob c n - of_nat c / of_nat n\<bar> \<le> 1 / 2 ^ 25" "\<bar>prob d n - of_nat d / of_nat n\<bar> \<le> 1 / 2 ^ 25"
    using assms n by (intro prob_error; simp)+
  moreover have "p < r" if "1 / 2 ^ 24 < y - x" "\<bar>p - x\<bar> \<le> 1 / 2 ^ 25" "\<bar>r - y\<bar> \<le> 1 / 2 ^ 25" for x y p r :: rat
    using that unfolding abs_le_iff by simp
  ultimately show ?thesis by blast
qed

lemma prob_less_iff: "c \<le> n \<Longrightarrow> d \<le> n \<Longrightarrow> n < 2 ^ 24 \<Longrightarrow> prob c n < prob d n \<longleftrightarrow> c < d"
  by (metis linorder_neqE_nat order_less_asym order_less_irrefl prob_strict_mono)

lemma prob_bounds: "c \<le> n \<Longrightarrow> 0 < n \<Longrightarrow> 0 \<le> prob c n \<and> prob c n \<le> 1"
proof -
  assume "c \<le> n" "0 < n"
  then have "0 \<le> (of_nat c / of_nat n :: rat)" "(of_nat c / of_nat n :: rat) \<le> of_nat 1" by simp_all
  moreover have "(1 :: nat) < 2 ^ fl_prec binary32" by (simp add: binary32_def)
  ultimately show ?thesis
    using fl_round_mag_le(2,3) [OF regular_formats(1)] unfolding prob_def by fastforce
qed

lemma fl_div_prob:
  assumes "c \<le> n" and "0 < n" and "n < 2 ^ 24"
  shows "fl_div binary32 (fl_of_rat binary32 (of_nat c)) (fl_of_rat binary32 (of_nat n)) = Fin False (prob c n)"
proof -
  have "fl_of_rat binary32 (of_nat c) = Fin False (of_nat c)" "fl_of_rat binary32 (of_nat n) = Fin False (of_nat n)"
    using assms by (simp_all add: fl_of_nat prec_binary32)
  moreover have "0 \<le> (of_nat c / of_nat n :: rat)" "(of_nat c / of_nat n :: rat) \<le> of_nat 1"
    using assms by simp_all
  moreover have "(1 :: nat) < 2 ^ fl_prec binary32" by (simp add: binary32_def)
  ultimately show ?thesis
    using fl_round_mag_le(1) [OF regular_formats(1)] assms(2) by (fastforce simp: prob_def)
qed

lemma verdict_probs_eq:
  assumes "0 < length rows" and "length rows < 2 ^ 24"
  shows "verdict_probs rows = map (\<lambda>k. Fin False (prob (tick_count k rows) (length rows))) [0, 1, 2, 3]"
proof -
  have "length rows < 2 ^ 32" using assms(2) by simp
  then have "fl_of_u32 (count_verdicts rows ! k) = fl_of_rat binary32 (of_nat (tick_count k rows))" if "k < 4" for k
    using that by (simp only: fl_of_u32_def count_verdicts_nth)
  then show ?thesis
    using fl_div_prob [OF tick_count_le assms] unfolding verdict_probs_def Let_def by simp
qed

section \<open>Facts about the choice\<close>

lemma max_by_from_eq:
  assumes "sorted_wrt (<) (b # js)"
  shows "\<exists>j \<in> set (b # js). max_by_from (b, Fin False (v b)) (map (\<lambda>i. (i, Fin False (v i))) js) =
      Inr (j, Fin False (v j)) \<and> (\<forall>i \<in> set (b # js). v i \<le> v j \<and> (j < i \<longrightarrow> v i < v j))"
  using assms
proof (induction js arbitrary: b)
  case (Cons k js)
  show ?case
  proof (cases "v k < v b")
    case True
    have "sorted_wrt (<) (b # js)" using Cons.prems by auto
    from Cons.IH [OF this] obtain j where j: "j \<in> set (b # js)"
      "max_by_from (b, Fin False (v b)) (map (\<lambda>i. (i, Fin False (v i))) js) = Inr (j, Fin False (v j))"
      "\<forall>i \<in> set (b # js). v i \<le> v j \<and> (j < i \<longrightarrow> v i < v j)" by blast
    have "v k < v j" using True j(3) by force
    with j True show ?thesis
      by (intro bexI [of _ j]) (auto simp: fl_partial_cmp_def fl_val_def)
  next
    case False
    have "sorted_wrt (<) (k # js)" using Cons.prems by auto
    from Cons.IH [OF this] obtain j where j: "j \<in> set (k # js)"
      "max_by_from (k, Fin False (v k)) (map (\<lambda>i. (i, Fin False (v i))) js) = Inr (j, Fin False (v j))"
      "\<forall>i \<in> set (k # js). v i \<le> v j \<and> (j < i \<longrightarrow> v i < v j)" by blast
    have "b < j" using j(1) Cons.prems by auto
    moreover have "v b \<le> v j" using False j(3) by force
    ultimately show ?thesis using j False
      by (intro bexI [of _ j]) (auto simp: fl_partial_cmp_def fl_val_def)
  qed
qed simp

lemma rule_based_predict_eq:
  assumes "0 < length rows" and "length rows < 2 ^ 24"
  shows "\<exists>b p. b < 4 \<and> rule_based_predict e rows = Inr p \<and> pr_verdict p = from_idx b \<and>
    pr_confidence p = Fin False (prob (tick_count b rows) (length rows)) \<and>
    pr_probs p = map (\<lambda>k. Fin False (prob (tick_count k rows) (length rows))) [0, 1, 2, 3] \<and>
    (\<forall>k < 4. tick_count k rows \<le> tick_count b rows \<and> (b < k \<longrightarrow> tick_count k rows < tick_count b rows))"
proof -
  let ?v = "\<lambda>k. prob (tick_count k rows) (length rows)"
  have pairs: "enumerate 0 (verdict_probs rows) =
      (0, Fin False (?v 0)) # map (\<lambda>i. (i, Fin False (?v i))) [1, 2, 3]"
    by (simp add: verdict_probs_eq [OF assms])
  have "sorted_wrt (<) [0, 1, 2, 3 :: nat]" by simp
  from max_by_from_eq [OF this, of ?v] obtain j where
    j: "j \<in> set [0, 1, 2, 3]"
    "max_by_from (0, Fin False (?v 0)) (map (\<lambda>i. (i, Fin False (?v i))) [1, 2, 3]) = Inr (j, Fin False (?v j))"
    "\<forall>i \<in> set [0, 1, 2, 3]. ?v i \<le> ?v j \<and> (j < i \<longrightarrow> ?v i < ?v j)" by blast
  have lt: "?v i < ?v k \<longleftrightarrow> tick_count i rows < tick_count k rows" for i k
    by (intro prob_less_iff tick_count_le assms(2))
  have max: "tick_count k rows \<le> tick_count j rows \<and> (j < k \<longrightarrow> tick_count k rows < tick_count j rows)"
    if "k < 4" for k
  proof -
    from that have "k \<in> set [0, 1, 2, 3]" by auto
    with j(3) have "\<not> ?v j < ?v k" "j < k \<longrightarrow> ?v k < ?v j" by (auto simp: not_less)
    then show ?thesis unfolding lt by simp
  qed
  have j4: "j < 4" using j(1) by auto
  have "best_index (verdict_probs rows) = Inr j" by (simp only: best_index_def pairs list.case j(2) res_bind.simps prod.case)
  moreover have "verdict_probs rows ! j = Fin False (?v j)"
    using j(1) by (auto simp: verdict_probs_eq [OF assms])
  moreover have "length (verdict_probs rows) = 4" by (simp add: verdict_probs_def Let_def)
  ultimately have "rule_based_predict e rows = Inr \<lparr>pr_verdict = from_idx j, pr_confidence = Fin False (?v j),
      pr_probs = verdict_probs rows, pr_backend = (if onnx_session e \<noteq> None then ''onnx'' else ''rule_based''),
      pr_cuda = cuda_available e\<rparr>"
    using j4 by (simp only: rule_based_predict_def Let_def res_bind.simps if_True)
  with max j4 verdict_probs_eq [OF assms] show ?thesis
    by (intro exI [of _ j] exI conjI) (assumption | simp)+
qed

section \<open>Properties\<close>

text \<open>The ticks of the window that vote for a verdict, the padding of a short window included.\<close>

definition window_count :: "rtx_engine \<Rightarrow> tick_features list \<Rightarrow> nat \<Rightarrow> nat" where
  "window_count e w k =
     length (filter (\<lambda>f. tick_index (verdict_enc f) = k) (drop (length w - window_size e) w))
     + (if k = 0 then window_size e - length w else 0)"

lemma tick_index_zero: "tick_index (Fin False 0) = 0"
  by (simp add: tick_index_def fl_round_mag_def binary32_def)

lemma tick_count_prepared:
  assumes "prepare_features e w = Inr rows"
  shows "tick_count k rows = window_count e w k"
proof -
  have "rows = replicate (window_size e - length w) (replicate 8 (Fin False 0))
      @ map to_array (drop (length w - window_size e) w)"
    using assms by (simp add: prepare_features_eq)
  then show ?thesis
    by (simp add: tick_count_def window_count_def filter_map comp_def to_array_def tick_index_zero
        filter_replicate)
qed

lemma predict_eq: "prepare_features e w = Inr rows \<Longrightarrow> predict e w = rule_based_predict e rows"
  by (simp add: predict_def onnx_predict_def split: option.splits)

lemma predict_facts:
  assumes "0 < window_size e" and "window_size e < 2 ^ 24"
  shows "\<exists>b p. b < 4 \<and> predict e w = Inr p \<and> pr_verdict p = from_idx b \<and>
    pr_confidence p = Fin False (prob (window_count e w b) (window_size e)) \<and>
    (\<forall>k < 4. window_count e w k \<le> window_count e w b \<and>
       (b < k \<longrightarrow> window_count e w k < window_count e w b)) \<and>
    window_count e w 0 + window_count e w 1 + window_count e w 2 + window_count e w 3 = window_size e"
proof -
  obtain rows where rows: "prepare_features e w = Inr rows" by (simp add: prepare_features_eq)
  have len: "length rows = window_size e" using rows by (rule length_prepared)
  note cnt = tick_count_prepared [OF rows]
  show ?thesis
    using rule_based_predict_eq [of rows e] assms tick_counts_sum [of rows]
    unfolding predict_eq [OF rows] len cnt by blast
qed

text \<open>
  C14: the engine answers every window, and with the majority. For every window size below 2 ^ 24 the
  prediction never panics, its verdict is the one with the most ticks among the last of the window, the
  later verdict when two have equally many, and its confidence is the rounded share of these ticks; rounding
  never decides.
\<close>

theorem predict_majority:
  assumes "0 < window_size e" and "window_size e < 2 ^ 24"
  shows "\<exists>b p. b < 4 \<and> predict e w = Inr p \<and> pr_verdict p = from_idx b \<and>
    pr_confidence p = Fin False (prob (window_count e w b) (window_size e)) \<and>
    (\<forall>k < 4. window_count e w k \<le> window_count e w b \<and>
       (b < k \<longrightarrow> window_count e w k < window_count e w b)) \<and>
    window_count e w 0 + window_count e w 1 + window_count e w 2 + window_count e w 3 = window_size e"
  using assms by (rule predict_facts)

theorem predict_majority_witness:
  "\<exists>p. predict (engine_new (\<lambda>p. False) False None) [] = Inr p"
proof -
  have "0 < window_size (engine_new (\<lambda>p. False) False None)"
    "window_size (engine_new (\<lambda>p. False) False None) < 2 ^ 24" by (simp_all add: engine_new_def)
  from predict_majority [OF this] show ?thesis by blast
qed

text \<open>
  A short window lowers the threshold. The padding of a short window counts as proven ticks, so with at
  most 199 ticks, whatever they are, also when all of them are noise, the command is to lower the
  threshold.
\<close>

lemma short_window_lowers_threshold:
  assumes "length w \<le> 199"
  shows "\<exists>p. predict (engine_new file_exists cuda model) w = Inr p \<and>
    gc_command (to_governance_command p agent) = ''LOWER_SHREWD_THRESHOLD''"
proof -
  let ?e = "engine_new file_exists cuda model"
  have ws: "window_size ?e = 1000" by (simp add: engine_new_def)
  obtain b p where p: "b < 4" "predict ?e w = Inr p" "pr_verdict p = from_idx b"
    "pr_confidence p = Fin False (prob (window_count ?e w b) 1000)"
    "\<forall>k < 4. window_count ?e w k \<le> window_count ?e w b"
    "window_count ?e w 0 + window_count ?e w 1 + window_count ?e w 2 + window_count ?e w 3 = 1000"
    using predict_facts [of ?e w] unfolding ws by auto
  have c0: "801 \<le> window_count ?e w 0" using assms by (simp add: window_count_def ws)
  with p(6) have "window_count ?e w k < window_count ?e w 0" if "k \<in> {1, 2, 3}" for k using that by auto
  moreover have "b \<in> {0, 1, 2, 3}" using p(1) by auto
  moreover have "window_count ?e w 0 \<le> window_count ?e w b" using p(5) by simp
  ultimately have b: "b = 0" by force
  have c1: "window_count ?e w 0 \<le> 1000" using p(6) by simp
  have "\<bar>prob (window_count ?e w 0) 1000 - of_nat (window_count ?e w 0) / of_nat 1000\<bar> \<le> 1 / 2 ^ 25"
    by (rule prob_error [OF c1]) simp
  moreover have "(801 :: rat) / 1000 \<le> of_nat (window_count ?e w 0) / of_nat 1000"
  proof -
    have "(of_nat 801 :: rat) \<le> of_nat (window_count ?e w 0)" using c0 by (simp only: of_nat_le_iff)
    then show ?thesis by simp
  qed
  moreover have "\<bar>prob 80 100 - of_nat 80 / of_nat 100\<bar> \<le> 1 / 2 ^ 25"
    by (rule prob_error) simp_all
  ultimately have conf: "prob 80 100 < prob (window_count ?e w 0) 1000"
    unfolding abs_le_iff by simp
  have "(0 :: rat) \<le> 80 / 100" "(80 :: rat) / 100 \<le> of_nat 1" "(1 :: nat) < 2 ^ fl_prec binary32"
    by (simp_all add: binary32_def)
  then have "fl_of_rat binary32 (80 / 100) = Fin False (prob 80 100)"
    using fl_round_mag_le(1) [OF regular_formats(1)] by (fastforce simp: fl_of_rat_def prob_def)
  with p(2,3,4) b conf show ?thesis
    by (simp add: to_governance_command_def from_idx_def fl_val_def)
qed

definition noise_tick :: tick_features where
  "noise_tick =
     \<lparr>verdict_enc = Fin False 1, has_proof = Fin False 0, agent_hash = Fin False 0, tick_delta = Fin False 0,
      ts_hour = Fin False 0, op_hash = Fin False 0, is_sovereign = Fin False 0, seal_entropy = Fin False 0\<rparr>"

lemma short_window_lowers_threshold_witness:
  "\<exists>p. predict (engine_new (\<lambda>p. False) False None) (replicate 199 noise_tick) = Inr p \<and>
     gc_command (to_governance_command p ''unknown'') = ''LOWER_SHREWD_THRESHOLD''"
  by (rule short_window_lowers_threshold) simp

lemma tick_index_near:
  assumes "0 \<le> x" and "of_nat k - 1 / 4 \<le> x * 3" and "x * 3 \<le> of_nat k + 1 / 4" and "k \<le> 3"
  shows "tick_index (Fin False x) = k"
proof -
  let ?y = "x * 3"
  have k4: "(of_nat k :: rat) \<le> of_nat 3" using assms(4) by (simp only: of_nat_le_iff)
  have y: "0 \<le> ?y" "?y \<le> of_nat 4" using assms k4 by simp_all
  have "(4 :: nat) < 2 ^ fl_prec binary32" by (simp add: binary32_def)
  note m = fl_round_mag_le [OF regular_formats(1) this y]
  have near: "of_nat k - 1 / 4 \<le> rnd binary32 ?y \<and> rnd binary32 ?y \<le> of_nat k + 1 / 4"
  proof (cases "?y = 0")
    case True
    with assms(2,3) show ?thesis by simp
  next
    case False
    with y have "0 < ?y" "?y < 2 powi 3" by simp_all
    then have "ilog2 ?y < 3" by (rule ilog2_less)
    then have u: "ulp_exp binary32 ?y \<le> -2" by (simp add: ulp_exp_def binary32_def)
    have "rnd binary32 ?y \<le> of_int (4 * int k + 1) * 2 powi (-2)"
      by (rule rnd_le [OF _ u False]) (use assms(3) in simp)
    moreover have "of_int (4 * int k - 1) * 2 powi (-2) \<le> rnd binary32 ?y"
      by (rule rnd_ge [OF _ u False]) (use assms(2) in simp)
    ultimately show ?thesis by simp
  qed
  then have "\<lfloor>rnd binary32 ?y + 1 / 2\<rfloor> = int k" by (intro floor_unique) simp_all
  then show ?thesis using assms(4) m(1) by (simp add: tick_index_def usize_max_def)
qed

lemma encoded_index:
  assumes "k \<le> 3"
  shows "tick_index (fl_div binary32 (fl_of_rat binary32 (of_nat k)) (fl_of_rat binary32 (of_nat 3))) = k"
proof -
  have e: "\<bar>prob k 3 - of_nat k / of_nat 3\<bar> \<le> 1 / 2 ^ 25" by (rule prob_error [OF assms]) simp
  have "of_nat k - 1 / 4 \<le> p * 3 \<and> p * 3 \<le> of_nat k + 1 / 4" if "\<bar>p - of_nat k / of_nat 3\<bar> \<le> 1 / 2 ^ 25" for p :: rat
    using that unfolding abs_le_iff by simp
  then have "tick_index (Fin False (prob k 3)) = k"
    using e prob_bounds [OF assms] assms by (intro tick_index_near) auto
  then show ?thesis using assms by (subst fl_div_prob) simp_all
qed

text \<open>
  The verdict a tick encodes is the one that is counted: the quotients by 3 of the four verdict numbers,
  rounded to binary32, are read back as these numbers. A not-a-number counts as proven.
\<close>

lemma verdict_encoding_roundtrip:
  "map (\<lambda>v. tick_index (fl_div binary32 (fl_of_rat binary32 (of_nat v)) (fl_of_rat binary32 (of_nat 3)))) [0, 1, 2, 3] =
     [0, 1, 2, 3] \<and>
   from_idx (tick_index NaN) = SkerProven"
  using encoded_index [of 0] encoded_index [of 1] encoded_index [of 2] encoded_index [of 3]
  by (simp add: tick_index_def from_idx_def)

lemma window_size_new [simp]: "window_size (engine_new file_exists cuda model) = 1000"
  by (simp add: engine_new_def)

lemma inference_turn_new:
  "inference_turn (engine_new file_exists cuda model) w =
     Inr (if length w < 10 then None
       else Some (to_governance_command (projr (predict (engine_new file_exists cuda model) w)) ''unknown''))"
proof -
  obtain p where "predict (engine_new file_exists cuda model) w = Inr p"
    using predict_facts [of "engine_new file_exists cuda model" w] by auto
  then show ?thesis by (simp add: inference_turn_def)
qed

text \<open>
  C36: the consumer. The loop never panics, and after any number of ticks of the timer it has published one
  command per tick, always that for its window, when the window has at least ten ticks, and none otherwise.
  The window of the function as written is created empty and nothing writes to it, so with and without the
  feature it never publishes a command.
\<close>

theorem consumer_commands:
  "rtx_loop n (engine_new file_exists cuda model) s =
     Inr (s\<lparr>rc_published := rc_published s @
       (if length (rc_window s) < 10 then []
        else replicate n (to_governance_command
          (projr (predict (engine_new file_exists cuda model) (rc_window s))) ''unknown''))\<rparr>) \<and>
   run_shrewd_rtx nats_bus file_exists cuda model n = Inr \<lparr>rc_window = [], rc_published = []\<rparr>"
proof -
  have loop: "rtx_loop n (engine_new file_exists cuda model) s =
     Inr (s\<lparr>rc_published := rc_published s @
       (if length (rc_window s) < 10 then []
        else replicate n (to_governance_command
          (projr (predict (engine_new file_exists cuda model) (rc_window s))) ''unknown''))\<rparr>)" for n s
    by (induction n arbitrary: s) (simp_all add: inference_turn_new)
  show ?thesis by (simp add: loop run_shrewd_rtx_def Let_def)
qed

end
