(* ===== verification/Shrewd_Tests.thy ===== *)
theory Shrewd_Tests
  imports Shrewd_Rtx
begin

text \<open>
  The unit tests of \<open>seb/runtime/shrewd/shrewd_rtx.rs\<close>, each a definition that says that it runs without
  panic and that its assertions hold, in the binary32 arithmetic of the code, and the proof that all of
  them hold. The presence of CUDA is an argument; the tests use no model file.
\<close>

section \<open>The tests\<close>

definition mock_window :: "nat \<Rightarrow> fl \<Rightarrow> tick_features list" where
  "mock_window count dominant =
     map (\<lambda>i. \<lparr>verdict_enc = fl_div binary32 dominant (Fin False 3),
               has_proof = (if dominant = Fin False 0 then Fin False 1 else Fin False 0),
               agent_hash = fl_of_rat binary32 (1 / 2),
               tick_delta = fl_of_rat binary32 (1 / 1000),
               ts_hour = fl_div binary32 (fl_of_rat binary32 (of_nat (i mod 24))) (Fin False 24),
               op_hash = fl_of_rat binary32 (3 / 10),
               is_sovereign = Fin False 1,
               seal_entropy = fl_of_rat binary32 (1 / 2)\<rparr>) [0..<count]"

definition test_proven_window_predicts_proven :: "(string \<Rightarrow> bool) \<Rightarrow> bool \<Rightarrow> bool" where
  "test_proven_window_predicts_proven file_exists cuda \<longleftrightarrow>
     (let e = engine_new file_exists cuda None; w = mock_window 1000 (Fin False 0)
      in case res_bind (prepare_features e w) (rule_based_predict e) of
           Inl x \<Rightarrow> False
         | Inr p \<Rightarrow> pr_verdict p = SkerProven \<and> fl_lt (fl_of_rat binary32 (1 / 2)) (pr_confidence p))"

definition test_noise_window_predicts_noise :: "(string \<Rightarrow> bool) \<Rightarrow> bool \<Rightarrow> bool" where
  "test_noise_window_predicts_noise file_exists cuda \<longleftrightarrow>
     (let e = engine_new file_exists cuda None; w = mock_window 1000 (Fin False 3)
      in case res_bind (prepare_features e w) (rule_based_predict e) of
           Inl x \<Rightarrow> False
         | Inr p \<Rightarrow> pr_verdict p = SkerNoise)"

definition test_governance_command_proven :: bool where
  "test_governance_command_proven \<longleftrightarrow>
     (let p = \<lparr>pr_verdict = SkerProven, pr_confidence = fl_of_rat binary32 (90 / 100),
               pr_probs = map (fl_of_rat binary32) [90 / 100, 5 / 100, 3 / 100, 2 / 100],
               pr_backend = ''rule_based'', pr_cuda = False\<rparr>;
          c = to_governance_command p ''sentinel''
      in gc_command c = ''LOWER_SHREWD_THRESHOLD'' \<and> gc_scope c = ''sentinel'')"

definition test_governance_command_noise :: bool where
  "test_governance_command_noise \<longleftrightarrow>
     (let p = \<lparr>pr_verdict = SkerNoise, pr_confidence = fl_of_rat binary32 (75 / 100),
               pr_probs = map (fl_of_rat binary32) [5 / 100, 5 / 100, 15 / 100, 75 / 100],
               pr_backend = ''rule_based'', pr_cuda = False\<rparr>;
          c = to_governance_command p ''unknown''
      in gc_command c = ''RAISE_ZERO_TRUST'' \<and> gc_scope c = ''all'')"

section \<open>All tests hold\<close>

lemma fl_of_rat_share:
  assumes "c \<le> n" and "0 < n"
  shows "fl_of_rat binary32 (of_nat c / of_nat n) = Fin False (prob c n)"
proof -
  have r: "(0 :: rat) \<le> of_nat c / of_nat n" "(of_nat c / of_nat n :: rat) \<le> of_nat 1"
    using assms by simp_all
  have "(1 :: nat) < 2 ^ fl_prec binary32" by (simp add: binary32_def)
  from fl_round_mag_le(1) [OF regular_formats(1) this r]
  have "fl_round_mag binary32 s (of_nat c / of_nat n) = Fin s (prob c n)" for s by (simp add: prob_def)
  then show ?thesis by (simp only: fl_of_rat_def abs_of_nonneg [OF r(1)] r(1) leD)
qed

lemma fl_of_rat_small: "n \<le> 3 \<Longrightarrow> fl_of_rat binary32 (of_nat n) = Fin False (of_nat n)"
  by (simp add: fl_of_nat prec_binary32)

text \<open>A window in which every tick encodes verdict \<open>k\<close> is predicted as \<open>k\<close>, with full confidence.\<close>

lemma mock_window_predicted:
  assumes "k \<le> 3"
  shows "\<exists>p. res_bind (prepare_features (engine_new file_exists cuda None) (mock_window 1000 (Fin False (of_nat k))))
      (rule_based_predict (engine_new file_exists cuda None)) = Inr p \<and>
    pr_verdict p = from_idx k \<and> pr_confidence p = Fin False (prob 1000 1000)"
proof -
  let ?e = "engine_new file_exists cuda None" and ?w = "mock_window 1000 (Fin False (of_nat k))"
  obtain rows where rows: "prepare_features ?e ?w = Inr rows" by (simp add: prepare_features_eq)
  have "tick_index (fl_div binary32 (Fin False (of_nat k)) (Fin False 3)) = k"
    using encoded_index [OF assms] fl_of_rat_small [OF assms] fl_of_rat_small [of 3] by simp
  then have "window_count ?e ?w j = (if j = k then 1000 else 0)" for j
    by (auto simp: window_count_def mock_window_def filter_map comp_def)
  then have cnt: "tick_count j rows = (if j = k then 1000 else 0)" for j
    using tick_count_prepared [OF rows] by simp
  have len: "length rows = 1000" using length_prepared [OF rows] by simp
  obtain b p where p: "b < 4" "rule_based_predict ?e rows = Inr p" "pr_verdict p = from_idx b"
    "pr_confidence p = Fin False (prob (tick_count b rows) (length rows))"
    "\<forall>j < 4. tick_count j rows \<le> tick_count b rows"
    using rule_based_predict_eq [of rows ?e] len by auto
  have "k < 4" using assms by simp
  with p(5) cnt have "b = k" by (metis not_numeral_le_zero)
  with p cnt len rows show ?thesis by simp
qed

lemma shrewd_tests:
  "test_proven_window_predicts_proven file_exists cuda" "test_noise_window_predicts_noise file_exists cuda"
  "test_governance_command_proven" "test_governance_command_noise"
proof -
  have half: "fl_of_rat binary32 (1 / 2) = Fin False (prob 1 2)"
    using fl_of_rat_share [of 1 2] by simp
  have share: "fl_of_rat binary32 (c / 100) = Fin False (prob (nat \<lfloor>c\<rfloor>) 100)"
    if "c = of_nat (nat \<lfloor>c\<rfloor>)" "nat \<lfloor>c\<rfloor> \<le> 100" for c
    using fl_of_rat_share [of "nat \<lfloor>c\<rfloor>" 100] that by simp
  have "\<bar>prob 1 2 - of_nat 1 / of_nat 2\<bar> \<le> 1 / 2 ^ 25" "\<bar>prob 1000 1000 - of_nat 1000 / of_nat 1000\<bar> \<le> 1 / 2 ^ 25"
    by (rule prob_error; simp)+
  then have "prob 1 2 < prob 1000 1000" unfolding abs_le_iff by simp
  then show "test_proven_window_predicts_proven file_exists cuda"
    using mock_window_predicted [of 0 file_exists cuda]
    by (auto simp: test_proven_window_predicts_proven_def half from_idx_def fl_val_def)
  show "test_noise_window_predicts_noise file_exists cuda"
    using mock_window_predicted [of 3 file_exists cuda]
    by (auto simp: test_noise_window_predicts_noise_def from_idx_def)
  have "prob 80 100 < prob 90 100" by (rule prob_strict_mono) simp_all
  then show "test_governance_command_proven"
    using share [of 80] share [of 90]
    by (simp add: test_governance_command_proven_def to_governance_command_def fl_val_def)
  show "test_governance_command_noise"
    by (simp add: test_governance_command_noise_def to_governance_command_def)
qed

end
