(* ===== verification/Human_Gateway.thy ===== *)
theory Human_Gateway
  imports Review_Queue
begin

text \<open>
  \<open>seb/human_touch/src/main.rs\<close>: start-up, the commands of the interactive loop, and the two tasks that
  share the queue behind one mutex. Every turn of the loop is given what it meets: whether the prompt can be
  flushed, whether the line can be read, the line, whether the mutex becomes free for a command that asks for
  it, the clock readings, the outcome of the write and the order of the map. When the inputs are used up,
  standard input is at its end, where \<open>read_line\<close> returns an empty line again and again. The loop runs
  on fuel, one unit per turn, so waiting or running without end is \<open>None\<close> for every amount of fuel. A \<open>println!\<close>
  is taken to succeed (it would panic on a closed standard output); the greeting and the prompt are not
  among the lines of the model.
\<close>

section \<open>Start-up\<close>

record gateway_args =
  arg_repo_path :: string
  arg_audit_log :: string
  arg_max_pending :: nat
  arg_approval_timeout_secs :: u64
  arg_verbose :: bool
  arg_reviewer :: "string option"
  arg_daemon :: bool
  arg_webhook_port :: u16

definition default_args :: gateway_args where
  "default_args =
     \<lparr>arg_repo_path = ''.'', arg_audit_log = ''HUMAN_REVIEW_LOG.json'', arg_max_pending = 100,
      arg_approval_timeout_secs = 3600, arg_verbose = False, arg_reviewer = None, arg_daemon = False,
      arg_webhook_port = 8080\<rparr>"

definition reviewer_name :: "gateway_args \<Rightarrow> string" where
  "reviewer_name a = (case arg_reviewer a of None \<Rightarrow> ''human'' | Some r \<Rightarrow> r)"

text \<open>\<open>mpsc::channel\<close> panics on a capacity of zero.\<close>

definition start_up ::
    "extern \<Rightarrow> timestamp \<Rightarrow> io_outcome \<Rightarrow> gateway_args \<Rightarrow> audit_file \<Rightarrow>
     (review_queue \<times> commit_gateway) res \<times> audit_file" where
  "start_up X now io a f =
     (if arg_max_pending a = 0 then (Inl Panic, f)
      else
        (let q = queue_new (arg_repo_path a) (arg_audit_log a) (arg_max_pending a);
             g = gateway_new (arg_repo_path a) (arg_approval_timeout_secs a);
             (r, f') = audit_new X now io f
         in (res_bind r (\<lambda>_. Inr (q, g)), f')))"

section \<open>Commands\<close>

datatype command =
    NoCommand
  | Approve string
  | ApproveUsage
  | Reject string string
  | RejectUsage
  | Status
  | Help
  | Exit
  | UnknownCommand

text \<open>\<open>parts.get(2..)\<close> is there, and empty, when there are two parts: a rejection needs no reason.\<close>

definition parse_command :: "string \<Rightarrow> command" where
  "parse_command line =
     (let cmd = trim line in
      if cmd = [] then NoCommand
      else
        (let parts = split_whitespace cmd in
         case parts of
           [] \<Rightarrow> UnknownCommand
         | p # ps \<Rightarrow>
             if p = ''approve'' then (case ps of cid # _ \<Rightarrow> Approve cid | [] \<Rightarrow> ApproveUsage)
             else if p = ''reject'' then
               (case ps of cid # rest \<Rightarrow> Reject cid (str_join '' '' rest) | [] \<Rightarrow> RejectUsage)
             else if p = ''status'' then Status
             else if p = ''help'' then Help
             else if p = ''exit'' then Exit
             else UnknownCommand))"

record turn =
  turn_flush :: bool
  turn_read :: bool
  turn_line :: string
  turn_lock :: bool
  turn_now :: timestamp
  turn_now' :: timestamp
  turn_io :: io_outcome
  turn_ord :: "string list"

definition check_mark :: string where
  "check_mark = [CHR 0xE2, CHR 0x9C, CHR 0x85]"

text \<open>What \<open>println!\<close> shows of an error.\<close>

fun error_text :: "failure \<Rightarrow> string" where
  "error_text Panic = ''panic''"
| "error_text (Err m) = m"

definition status_text :: "queue_status \<Rightarrow> string" where
  "status_text s =
     [newline, CHR 0xF0, CHR 0x9F, CHR 0x93, CHR 0x8A] @ '' Queue Status:'' @ [newline]
     @ ''   Total: '' @ show_nat (qs_total s) @ [newline]
     @ ''   Pending: '' @ show_nat (qs_pending s) @ [newline]
     @ ''   Approved: '' @ show_nat (qs_approved s) @ [newline]
     @ ''   Rejected: '' @ show_nat (qs_rejected s) @ [newline]
     @ ''   Committed: '' @ show_nat (qs_committed s) @ [newline]
     @ ''   Capacity: '' @ show_nat (qs_capacity s) @ [newline]"

definition help_text :: "string list" where
  "help_text =
     [[newline, CHR 0xF0, CHR 0x9F, CHR 0x93, CHR 0x96] @ '' Available Commands:'',
      ''   approve <id>         - Approve a change for commit'',
      ''   reject <id> <reason> - Reject a change with reason'',
      ''   status               - Show queue status'',
      ''   help                 - Show this message'',
      ''   exit                 - Exit gateway'' @ [newline]]"

fun run_command ::
    "extern \<Rightarrow> string \<Rightarrow> turn \<Rightarrow> command \<Rightarrow> gate_state \<Rightarrow> string list \<times> gate_state" where
  "run_command X who t (Approve cid) st =
     (case approve_change X (turn_now t) (turn_now' t) (turn_io t) cid who st of
        (Inr u, st') \<Rightarrow> ([check_mark @ '' Change '' @ cid @ '' approved and ready for commit''], st')
      | (Inl e, st') \<Rightarrow> ([cross_mark @ '' Failed to approve: '' @ error_text e], st'))"
| "run_command X who t (Reject cid why) st =
     (case reject_change X (turn_now t) (turn_now' t) (turn_io t) cid who why st of
        (Inr u, st') \<Rightarrow> ([cross_mark @ '' Change '' @ cid @ '' rejected''], st')
      | (Inl e, st') \<Rightarrow> ([cross_mark @ '' Failed to reject: '' @ error_text e], st'))"
| "run_command X who t ApproveUsage st = ([cross_mark @ '' Usage: approve <change-id>''], st)"
| "run_command X who t RejectUsage st = ([cross_mark @ '' Usage: reject <change-id> <reason>''], st)"
| "run_command X who t Status st = ([status_text (queue_status_of (turn_ord t) (fst st))], st)"
| "run_command X who t Help st = (help_text, st)"
| "run_command X who t UnknownCommand st =
     ([[CHR 0xE2, CHR 0x9D, CHR 0x93] @ '' Unknown command. Type '' @ [CHR 0x27] @ ''help'' @ [CHR 0x27]
       @ '' for available commands.''], st)"
| "run_command X who t NoCommand st = ([], st)"
| "run_command X who t Exit st =
     ([[CHR 0xF0, CHR 0x9F, CHR 0x91, CHR 0x8B] @ '' Exiting Human-Touch Gateway...''], st)"

text \<open>The end of standard input.\<close>

definition eof_turn :: turn where
  "eof_turn = \<lparr>turn_flush = True, turn_read = True, turn_line = [], turn_lock = True, turn_now = 0, turn_now' = 0, turn_io = IoOk, turn_ord = []\<rparr>"

fun next_turn :: "turn list \<Rightarrow> turn" where
  "next_turn [] = eof_turn"
| "next_turn (t # ts) = t"

fun needs_lock :: "command \<Rightarrow> bool" where
  "needs_lock (Approve cid) = True"
| "needs_lock (Reject cid why) = True"
| "needs_lock Status = True"
| "needs_lock _ = False"

text \<open>
  One turn after another: \<open>flush\<close> and \<open>read_line\<close> can fail, \<open>read_line\<close> also on a line that is not UTF-8, and
  the loop with them; a command that asks for the mutex waits until it is free.
\<close>

fun interactive_loop ::
    "nat \<Rightarrow> extern \<Rightarrow> string \<Rightarrow> turn list \<Rightarrow> gate_state \<Rightarrow>
     (unit res \<times> string list \<times> gate_state) option" where
  "interactive_loop 0 X who ts st = None"
| "interactive_loop (Suc n) X who ts st =
     (let t = next_turn ts in
      if \<not> turn_flush t then Some (Inl (Err ''flush''), [], st)
      else if \<not> turn_read t \<or> \<not> utf8_valid (turn_line t) then Some (Inl (Err ''read_line''), [], st)
      else
        (let c = parse_command (turn_line t) in
         if needs_lock c \<and> \<not> turn_lock t then None
         else
           (let (out, st') = run_command X who t c st in
            if c = Exit then Some (Inr (), out, st')
            else map_option (\<lambda>(r, outs, st''). (r, out @ outs, st''))
              (interactive_loop n X who (List.tl ts) st'))))"

text \<open>The turns with which the loop is left: with an error, or by \<open>exit\<close>; and those that wait for ever.\<close>

definition turn_fails :: "turn \<Rightarrow> bool" where
  "turn_fails t \<longleftrightarrow> \<not> turn_flush t \<or> \<not> turn_read t \<or> \<not> utf8_valid (turn_line t)"

definition leaves_loop :: "turn \<Rightarrow> bool" where
  "leaves_loop t \<longleftrightarrow> turn_fails t \<or> parse_command (turn_line t) = Exit"

definition waits_for_lock :: "turn \<Rightarrow> bool" where
  "waits_for_lock t \<longleftrightarrow> \<not> turn_fails t \<and> needs_lock (parse_command (turn_line t)) \<and> \<not> turn_lock t"

section \<open>The two tasks\<close>

text \<open>
  The processor locks the queue once and keeps the lock as long as \<open>process_queue\<close> runs; the reviewer's
  task locks it for one command. \<open>Waiting t c\<close> is a command that has been read and asks for the lock. As a
  daemon, \<open>main\<close> has no reviewer's task and waits for a signal instead. \<open>sends\<close> are the changes that some
  holder of the channel's sending end may send; in \<open>main\<close> itself nothing is ever sent.
\<close>

datatype processor = NotStarted | Running | Ended failure

datatype reviewer = AtPrompt | Waiting turn command | LeftLoop

record gateway_state =
  gs_daemon :: bool
  gs_processor :: processor
  gs_reviewer :: reviewer
  gs_gate :: gate_state

fun may_arrive :: "(pending_change \<Rightarrow> bool) \<Rightarrow> queue_event \<Rightarrow> bool" where
  "may_arrive sends (Incoming now io c) = sends c"
| "may_arrive sends (Timer now ord) = True"

inductive gateway_step ::
    "extern \<Rightarrow> (pending_change \<Rightarrow> bool) \<Rightarrow> string \<Rightarrow> gateway_state \<Rightarrow> gateway_state \<Rightarrow> bool"
  for X sends who where
  acquire:
    "gs_processor s = NotStarted \<Longrightarrow> gateway_step X sends who s (s\<lparr>gs_processor := Running\<rparr>)"
| process:
    "gs_processor s = Running \<Longrightarrow> may_arrive sends ev \<Longrightarrow> process_queue X [ev] (gs_gate s) = (None, g) \<Longrightarrow>
     gateway_step X sends who s (s\<lparr>gs_gate := g\<rparr>)"
| process_fails:
    "gs_processor s = Running \<Longrightarrow> may_arrive sends ev \<Longrightarrow> process_queue X [ev] (gs_gate s) = (Some e, g) \<Longrightarrow>
     gateway_step X sends who s (s\<lparr>gs_processor := Ended e, gs_gate := g\<rparr>)"
| read_waits:
    "\<not> gs_daemon s \<Longrightarrow> gs_reviewer s = AtPrompt \<Longrightarrow> \<not> leaves_loop t \<Longrightarrow>
     needs_lock (parse_command (turn_line t)) \<Longrightarrow>
     gateway_step X sends who s (s\<lparr>gs_reviewer := Waiting t (parse_command (turn_line t))\<rparr>)"
| read_leaves:
    "\<not> gs_daemon s \<Longrightarrow> gs_reviewer s = AtPrompt \<Longrightarrow> leaves_loop t \<Longrightarrow>
     gateway_step X sends who s (s\<lparr>gs_reviewer := LeftLoop\<rparr>)"
| decide:
    "gs_reviewer s = Waiting t c \<Longrightarrow> gs_processor s \<noteq> Running \<Longrightarrow>
     gateway_step X sends who s
       (s\<lparr>gs_reviewer := AtPrompt, gs_gate := snd (run_command X who t c (gs_gate s))\<rparr>)"
| ctrl_c:
    "gs_daemon s \<Longrightarrow> gs_reviewer s = AtPrompt \<Longrightarrow> gateway_step X sends who s (s\<lparr>gs_reviewer := LeftLoop\<rparr>)"

definition gateway_init :: "gateway_args \<Rightarrow> review_queue \<Rightarrow> audit_file \<Rightarrow> gateway_state" where
  "gateway_init a q f =
     \<lparr>gs_daemon = arg_daemon a, gs_processor = NotStarted, gs_reviewer = AtPrompt, gs_gate = (q, f)\<rparr>"

text \<open>
  \<open>main\<close> returns when the loop is left and the processor has ended; as a daemon it does not wait for the
  processor.
\<close>

definition main_returns :: "gateway_state \<Rightarrow> bool" where
  "main_returns s \<longleftrightarrow> gs_reviewer s = LeftLoop \<and> (gs_daemon s \<or> (\<exists>e. gs_processor s = Ended e))"

inductive_cases gateway_stepE: "gateway_step X sends who s s'"

section \<open>Facts about words\<close>

lemma strip_any_head:
  assumes "c \<notin> \<Union> (set ` set ps)" and "[] \<notin> set ps"
  shows "strip_any ps (c # s) = None"
  unfolding strip_any_None_iff
proof
  fix p assume "p \<in> set ps"
  with assms show "\<not> starts_with (c # s) p"
    by (cases p) (auto simp: starts_with_iff)
qed

lemma white_space_nonempty: "[] \<notin> set white_space" "[] \<notin> set (map rev white_space)"
  by (simp_all add: white_space_def)

lemma strip_word: "c \<notin> space_bytes \<Longrightarrow> strip_any white_space (c # s) = None"
  by (rule strip_any_head) (simp_all add: space_bytes_def white_space_nonempty)


text \<open>A word: no byte of it can belong to white space.\<close>

definition word_like :: "string \<Rightarrow> bool" where
  "word_like w \<longleftrightarrow> w \<noteq> [] \<and> set w \<inter> space_bytes = {}"

lemma split_ws_word:
  "set w \<inter> space_bytes = {} \<Longrightarrow> split_ws_from acc (w @ s) = split_ws_from (acc @ w) s"
proof (induction w arbitrary: acc)
  case (Cons c w)
  then show ?case by (simp add: split_ws_from.simps [of acc "c # w @ s"] strip_word)
qed simp

lemma split_ws_space:
  "acc \<noteq> [] \<Longrightarrow> split_ws_from acc (CHR '' '' # s) = acc # split_ws_from [] s"
  by (simp add: split_ws_from.simps [of acc "CHR '' '' # s"] strip_any_space)

lemma split_two_words:
  assumes "word_like v" and "word_like w"
  shows "split_whitespace (v @ CHR '' '' # w) = [v, w]"
proof -
  have "split_ws_from [] w = [w]"
    using split_ws_word [of w "[]" "[]"] assms(2) by (simp add: word_like_def split_ws_from.simps [of w "[]"])
  then show ?thesis
    using split_ws_word [of v "[]" "CHR '' '' # w"] assms(1)
    by (simp add: word_like_def split_whitespace_def split_ws_space)
qed






section \<open>Facts about the two tasks\<close>

definition all_pending :: "review_queue \<Rightarrow> bool" where
  "all_pending q \<longleftrightarrow> (\<forall>k r. fmlookup (changes q) k = Some r \<longrightarrow> cr_status r = Pending)"

definition audit_errors :: "failure set" where
  "audit_errors = {Err ''open'', Err ''write'', Err ''sync''}"

lemma append_text_error: "fst (append_text io t f) = Inl e \<Longrightarrow> e \<in> audit_errors"
  by (cases io; cases f) (auto simp: audit_errors_def)

lemma handle_incoming_pending:
  "all_pending (fst st) \<Longrightarrow> all_pending (fst (snd (handle_incoming_change X now io c st)))"
  by (cases st) (auto simp: handle_incoming_change_def all_pending_def Let_def split_beta)

lemma handle_incoming_error:
  "fst (handle_incoming_change X now io c st) = Inl e \<Longrightarrow> e \<in> audit_errors"
  by (cases st)
    (auto simp: handle_incoming_change_def Let_def split_beta log_op_defs append_entry_def res_bind_Inl_iff
      intro: append_text_error split: if_splits)

lemma process_one:
  assumes "process_queue X [ev] st = (r, st')"
  shows "all_pending (fst st) \<Longrightarrow> all_pending (fst st')" and "r = Some e \<Longrightarrow> e \<in> audit_errors"
proof -
  show "all_pending (fst st')" if "all_pending (fst st)"
  proof (cases ev)
    case (Incoming now io c)
    then have "st' = snd (handle_incoming_change X now io c st)"
      using assms by (auto split: prod.splits sum.splits)
    then show ?thesis using handle_incoming_pending [OF that] by simp
  next
    case (Timer now ord)
    with assms that show ?thesis by (auto simp: check_pending_reviews_def)
  qed
  show "e \<in> audit_errors" if "r = Some e"
  proof (cases ev)
    case (Incoming now io c)
    then have "fst (handle_incoming_change X now io c st) = Inl e"
      using assms that by (auto split: prod.splits sum.splits)
    then show ?thesis by (rule handle_incoming_error)
  next
    case (Timer now ord)
    with assms that show ?thesis by (auto simp: check_pending_reviews_def)
  qed
qed

lemma run_command_empty:
  "changes (fst st) = fmempty \<Longrightarrow> snd (run_command X who t c st) = st"
  by (cases c; cases st) (auto simp: approve_change_def reject_change_def)

text \<open>
  The invariant of the two tasks: who may have changed the queue so far, and that a daemon has no
  waiting command. Without a sender the queue stays empty and the processor never fails.
\<close>

definition gateway_inv :: "(pending_change \<Rightarrow> bool) \<Rightarrow> gateway_state \<Rightarrow> bool" where
  "gateway_inv sends s \<longleftrightarrow>
     (case gs_processor s of
        NotStarted \<Rightarrow> changes (fst (gs_gate s)) = fmempty
      | Running \<Rightarrow> all_pending (fst (gs_gate s))
      | Ended e \<Rightarrow> e \<in> audit_errors \<and> (gs_daemon s \<longrightarrow> all_pending (fst (gs_gate s)))) \<and>
     (gs_daemon s \<longrightarrow> gs_reviewer s \<in> {AtPrompt, LeftLoop}) \<and>
     ((\<forall>c. \<not> sends c) \<longrightarrow> changes (fst (gs_gate s)) = fmempty \<and> (\<forall>e. gs_processor s \<noteq> Ended e))"

lemma no_arrival:
  assumes "may_arrive sends ev" and "\<forall>c. \<not> sends c"
  shows "process_queue X [ev] st = (None, st)"
  using assms by (cases ev) (auto simp: check_pending_reviews_def)

lemma gateway_inv_step: "gateway_step X sends who s s' \<Longrightarrow> gateway_inv sends s \<Longrightarrow> gateway_inv sends s'"
proof (induction rule: gateway_step.induct)
  case (acquire s)
  then show ?case by (auto simp: gateway_inv_def all_pending_def)
next
  case (process s ev g)
  then show ?case using no_arrival [OF process(2), of X "gs_gate s"]
    by (auto simp: gateway_inv_def process_one(1) [OF process(3)])
next
  case (process_fails s ev e g)
  then show ?case using no_arrival [OF process_fails(2), of X "gs_gate s"]
    by (auto simp: gateway_inv_def process_one [OF process_fails(3)])
next
  case (read_waits s t)
  then show ?case by (auto simp: gateway_inv_def split: processor.splits)
next
  case (read_leaves s t)
  then show ?case by (auto simp: gateway_inv_def split: processor.splits)
next
  case (decide s t c)
  then show ?case by (auto simp: gateway_inv_def run_command_empty split: processor.splits)
next
  case (ctrl_c s)
  then show ?case by (auto simp: gateway_inv_def split: processor.splits)
qed

lemma gs_daemon_step: "gateway_step X sends who s s' \<Longrightarrow> gs_daemon s' = gs_daemon s"
  by (auto elim!: gateway_stepE)

lemma gateway_reachable:
  assumes "(gateway_step X sends who)\<^sup>*\<^sup>* (gateway_init a (queue_new repo audit mx) f) s"
  shows "gateway_inv sends s" and "gs_daemon s = arg_daemon a"
  using assms
proof (induction rule: rtranclp_induct)
  case base
  show "gateway_inv sends (gateway_init a (queue_new repo audit mx) f)"
    and "gs_daemon (gateway_init a (queue_new repo audit mx) f) = arg_daemon a"
    by (simp_all add: gateway_inv_def gateway_init_def queue_new_def)
next
  case (step s s')
  then show "gateway_inv sends s'" and "gs_daemon s' = arg_daemon a"
    by (blast intro: gateway_inv_step) (simp add: gs_daemon_step [OF step(2)] step)
qed

text \<open>While the processor runs, only its own failure lets a waiting command proceed.\<close>

lemma waiting_stays:
  assumes "gateway_step X sends who s s'" and "gs_reviewer s = Waiting t c" and "gs_processor s = Running"
  shows "gs_reviewer s' = Waiting t c"
  using assms by (auto elim!: gateway_stepE)

text \<open>Start-up gives an empty queue, and needs a capacity other than zero.\<close>

lemma start_up_queue:
  assumes "start_up X now io a f0 = (Inr (q, g), f)"
  shows "q = queue_new (arg_repo_path a) (arg_audit_log a) (arg_max_pending a)" and "arg_max_pending a \<noteq> 0"
  using assms by (auto simp: start_up_def Let_def split_beta res_bind_Inr_iff split: if_splits)

section \<open>The tasks as runs of the queue\<close>

text \<open>The operation of the queue that an event, or a command, performs.\<close>

fun event_ops :: "queue_event \<Rightarrow> queue_op list" where
  "event_ops (Incoming now io c) = [QIncoming now io c]"
| "event_ops (Timer now ord) = []"

fun command_ops :: "string \<Rightarrow> turn \<Rightarrow> command \<Rightarrow> queue_op list" where
  "command_ops who t (Approve cid) = [QApprove (turn_now t) (turn_now' t) (turn_io t) cid who]"
| "command_ops who t (Reject cid why) = [QReject (turn_now t) (turn_now' t) (turn_io t) cid who why]"
| "command_ops who t _ = []"

fun is_commit :: "queue_op \<Rightarrow> bool" where
  "is_commit (QCommit now io cid h) = True"
| "is_commit _ = False"

lemma process_queue_ops: "snd (process_queue X [ev] st) = run_queue X (event_ops ev) st"
  by (cases ev) (auto simp: check_pending_reviews_def split: prod.splits sum.splits)

lemma run_command_ops: "snd (run_command X who t c st) = run_queue X (command_ops who t c) st"
  by (cases c) (auto split: prod.splits sum.splits)

lemma event_ops_no_commit: "op \<in> set (event_ops ev) \<Longrightarrow> \<not> is_commit op"
  by (cases ev) auto

lemma command_ops_no_commit: "op \<in> set (command_ops who t c) \<Longrightarrow> \<not> is_commit op"
  by (cases c) auto

lemma gateway_step_ops:
  assumes "gateway_step X sends who s s'"
  shows "\<exists>ops. gs_gate s' = run_queue X ops (gs_gate s) \<and> (\<forall>op \<in> set ops. \<not> is_commit op)"
  using assms
proof (cases rule: gateway_step.cases)
  case (process ev g)
  then have "g = run_queue X (event_ops ev) (gs_gate s)" by (metis process_queue_ops snd_conv)
  with process show ?thesis by (intro exI [of _ "event_ops ev"]) (auto dest: event_ops_no_commit)
next
  case (process_fails ev e g)
  then have "g = run_queue X (event_ops ev) (gs_gate s)" by (metis process_queue_ops snd_conv)
  with process_fails show ?thesis by (intro exI [of _ "event_ops ev"]) (auto dest: event_ops_no_commit)
next
  case (decide t c)
  then show ?thesis
    by (intro exI [of _ "command_ops who t c"]) (auto simp: run_command_ops dest: command_ops_no_commit)
qed (auto intro!: exI [of _ "[]"])

lemma gateway_ops:
  assumes "(gateway_step X sends who)\<^sup>*\<^sup>* s0 s"
  shows "\<exists>ops. gs_gate s = run_queue X ops (gs_gate s0) \<and> (\<forall>op \<in> set ops. \<not> is_commit op)"
  using assms
proof (induction rule: rtranclp_induct)
  case base
  show ?case by (intro exI [of _ "[]"]) simp
next
  case (step s s')
  then obtain ops where ops: "gs_gate s = run_queue X ops (gs_gate s0)" "\<forall>op \<in> set ops. \<not> is_commit op" by blast
  obtain ops' where "gs_gate s' = run_queue X ops' (gs_gate s)" "\<forall>op \<in> set ops'. \<not> is_commit op"
    using gateway_step_ops [OF step.hyps(2)] by blast
  with ops show ?case by (intro exI [of _ "ops @ ops'"]) auto
qed

text \<open>A run of the queue extends the audit file, and without commits it leaves nothing committed.\<close>

lemma apply_queue_op_extends: "\<exists>t. snd (apply_queue_op X op (q, Some c)) = Some (c @ t)"
proof (cases op)
  case (QIncoming now io ch)
  then show ?thesis
    using append_entry_extends by (simp add: handle_incoming_change_def log_op_defs Let_def split_beta)
qed (use append_entry_extends in
  \<open>auto simp: approve_change_def reject_change_def mark_committed_def log_op_defs Let_def split_beta
     split: option.split\<close>)

lemma run_queue_extends: "\<exists>t. snd (run_queue X ops (q, Some c)) = Some (c @ t)"
proof (induction ops arbitrary: q c)
  case (Cons op ops)
  obtain t where "snd (apply_queue_op X op (q, Some c)) = Some (c @ t)" using apply_queue_op_extends by blast
  then obtain q' where "apply_queue_op X op (q, Some c) = (q', Some (c @ t))"
    by (cases "apply_queue_op X op (q, Some c)") simp
  with Cons.IH [of q' "c @ t"] show ?case by auto
qed simp

lemma queue_step_uncommitted:
  assumes "\<not> is_commit op" and "\<forall>k. statuses q k \<in> {None, Some Pending, Some Approved, Some Rejected}"
  shows "\<forall>k. statuses (queue_step X op q) k \<in> {None, Some Pending, Some Approved, Some Rejected}"
  using assms
  by (cases op)
    (auto simp: queue_step_def queue_op_defs statuses_def Let_def split_beta split: option.splits)

lemma run_queue_uncommitted:
  assumes "\<forall>op \<in> set ops. \<not> is_commit op" and "\<forall>k. statuses q k \<in> {None, Some Pending, Some Approved, Some Rejected}"
  shows "\<forall>k. statuses (fold (queue_step X) ops q) k \<in> {None, Some Pending, Some Approved, Some Rejected}"
  using assms
proof (induction ops arbitrary: q)
  case (Cons op ops)
  show ?case
    using Cons.IH [OF _ queue_step_uncommitted [of op q X]] Cons.prems by simp
qed simp

section \<open>Facts about the loop\<close>

lemma eof_stays: "\<not> leaves_loop eof_turn" "\<not> waits_for_lock eof_turn"
  by (simp_all add: leaves_loop_def turn_fails_def waits_for_lock_def parse_command_def eof_turn_def)

text \<open>The three ways a turn can go.\<close>

lemma interactive_loop_Suc:
  assumes "\<not> leaves_loop (next_turn ts)" and "\<not> waits_for_lock (next_turn ts)"
  shows "interactive_loop (Suc n) X who ts st =
    (case run_command X who (next_turn ts) (parse_command (turn_line (next_turn ts))) st of
       (out, st') \<Rightarrow> map_option (\<lambda>(r, outs, st''). (r, out @ outs, st''))
         (interactive_loop n X who (List.tl ts) st'))"
  using assms by (auto simp: leaves_loop_def turn_fails_def waits_for_lock_def Let_def)

lemma interactive_loop_waits: "waits_for_lock (next_turn ts) \<Longrightarrow> interactive_loop n X who ts st = None"
  by (cases n) (auto simp: waits_for_lock_def turn_fails_def Let_def)

lemma interactive_loop_leaves:
  assumes "leaves_loop (next_turn ts)"
  shows "\<exists>r out. interactive_loop (Suc n) X who ts st = Some (r, out, st) \<and>
    (r = Inr () \<longleftrightarrow> \<not> turn_fails (next_turn ts))"
  using assms by (auto simp: leaves_loop_def turn_fails_def Let_def)

text \<open>With enough fuel the loop returns, and the first turn that leaves it decides how.\<close>

lemma interactive_loop_returns:
  assumes "\<forall>t \<in> set us. \<not> leaves_loop t \<and> \<not> waits_for_lock t" and "leaves_loop t" and "length us < n"
  shows "\<exists>r. interactive_loop n X who (us @ t # ts) st = Some r \<and> (fst r = Inr () \<longleftrightarrow> \<not> turn_fails t)"
  using assms
proof (induction us arbitrary: n st)
  case Nil
  then obtain m where "n = Suc m" by (cases n) simp_all
  then show ?case using interactive_loop_leaves [of "t # ts" m X who st] Nil(2) by fastforce
next
  case (Cons u us)
  then obtain m where m: "n = Suc m" "length us < m" by (cases n) simp_all
  obtain out st' where run: "run_command X who u (parse_command (turn_line u)) st = (out, st')"
    by (cases "run_command X who u (parse_command (turn_line u)) st")
  from Cons.IH [of m st'] Cons.prems(1,2) m(2) obtain r
    where "interactive_loop m X who (us @ t # ts) st' = Some r" "fst r = Inr () \<longleftrightarrow> \<not> turn_fails t"
    by auto
  then show ?case
    using interactive_loop_Suc [of "(u # us) @ t # ts" m X who st] Cons.prems(1) run m(1)
    by (cases r) (simp add: split_beta)
qed

text \<open>And it returns in no other way.\<close>

lemma interactive_loop_only:
  assumes "interactive_loop n X who ts st = Some r"
  shows "\<exists>us t vs. ts = us @ t # vs \<and> (\<forall>u \<in> set us. \<not> leaves_loop u \<and> \<not> waits_for_lock u) \<and> leaves_loop t"
  using assms
proof (induction n arbitrary: ts st r)
  case (Suc n)
  have w: "\<not> waits_for_lock (next_turn ts)" using Suc.prems interactive_loop_waits by (metis option.distinct(1))
  show ?case
  proof (cases "leaves_loop (next_turn ts)")
    case True
    then obtain t vs where "ts = [] @ t # vs" "leaves_loop t" using eof_stays by (cases ts) auto
    then show ?thesis by (metis empty_iff empty_set)
  next
    case False
    with Suc.prems w obtain r' where "interactive_loop n X who (List.tl ts)
        (snd (run_command X who (next_turn ts) (parse_command (turn_line (next_turn ts))) st)) = Some r'"
      by (auto simp: interactive_loop_Suc split_beta simp del: interactive_loop.simps)
    from Suc.IH [OF this] obtain us t vs
      where us: "List.tl ts = us @ t # vs" "\<forall>u \<in> set us. \<not> leaves_loop u \<and> \<not> waits_for_lock u" "leaves_loop t"
      by blast
    then obtain u where "ts = u # us @ t # vs" by (cases ts) auto
    with us False w show ?thesis by (intro exI [of _ "u # us"] exI [of _ t] exI [of _ vs]) simp
  qed
qed simp

text \<open>A command that needs no lock changes nothing.\<close>

lemma run_command_free: "\<not> needs_lock c \<Longrightarrow> snd (run_command X who t c st) = st"
  by (cases c) simp_all

lemma read_and_decide:
  assumes "\<not> gs_daemon s" and "gs_reviewer s = AtPrompt" and "gs_processor s \<noteq> Running"
    and "\<not> leaves_loop t" and "parse_command (turn_line t) = c" and "needs_lock c"
  shows "(gateway_step X sends who)\<^sup>*\<^sup>* s (s\<lparr>gs_gate := snd (run_command X who t c (gs_gate s))\<rparr>)"
proof -
  let ?w = "s\<lparr>gs_reviewer := Waiting t c\<rparr>"
  have "gateway_step X sends who s ?w" using assms read_waits [of s t X sends who] by simp
  moreover have "gateway_step X sends who ?w (?w\<lparr>gs_reviewer := AtPrompt,
      gs_gate := snd (run_command X who t c (gs_gate ?w))\<rparr>)"
    using assms(3) by (intro decide) simp_all
  moreover have "?w\<lparr>gs_reviewer := AtPrompt\<rparr> = s" using assms(2) by (cases s) simp
  then have "?w\<lparr>gs_reviewer := AtPrompt, gs_gate := snd (run_command X who t c (gs_gate ?w))\<rparr> =
      s\<lparr>gs_gate := snd (run_command X who t c (gs_gate s))\<rparr>" by (cases s) simp
  ultimately show ?thesis by (metis converse_rtranclp_into_rtranclp r_into_rtranclp)
qed

text \<open>When the processor does not hold the mutex, what the loop does is an execution of the reviewer's task.\<close>

lemma loop_is_task:
  assumes "interactive_loop n X who ts (gs_gate s) = Some (r, out, g)"
    and "\<not> gs_daemon s" and "gs_reviewer s = AtPrompt" and "gs_processor s \<noteq> Running"
  shows "(gateway_step X sends who)\<^sup>*\<^sup>* s (s\<lparr>gs_reviewer := LeftLoop, gs_gate := g\<rparr>)"
  using assms
proof (induction n arbitrary: ts s out)
  case (Suc n)
  let ?t = "next_turn ts" and ?step = "(gateway_step X sends who)\<^sup>*\<^sup>*"
  let ?c = "parse_command (turn_line ?t)"
  let ?g = "snd (run_command X who ?t ?c (gs_gate s))"
  have w: "\<not> waits_for_lock ?t" using Suc.prems(1) interactive_loop_waits by (metis option.distinct(1))
  show ?case
  proof (cases "leaves_loop ?t")
    case True
    then have "g = gs_gate s" using Suc.prems(1) interactive_loop_leaves [OF True, of n X who "gs_gate s"] by auto
    then show ?thesis using read_leaves [OF Suc.prems(2,3) True, of X sends who] by (cases s) auto
  next
    case False
    then obtain out' where IH: "interactive_loop n X who (List.tl ts) (gs_gate (s\<lparr>gs_gate := ?g\<rparr>)) = Some (r, out', g)"
      using Suc.prems(1) w by (auto simp: interactive_loop_Suc split_beta simp del: interactive_loop.simps)
    have "?step s (s\<lparr>gs_gate := ?g\<rparr>)"
    proof (cases "needs_lock ?c")
      case True
      show ?thesis by (rule read_and_decide [OF Suc.prems(2-4) False refl True])
    next
      case False
      then have "s\<lparr>gs_gate := ?g\<rparr> = s" by (simp add: run_command_free)
      then show ?thesis by simp
    qed
    also have "?step (s\<lparr>gs_gate := ?g\<rparr>) (s\<lparr>gs_gate := ?g\<rparr>\<lparr>gs_reviewer := LeftLoop, gs_gate := g\<rparr>)"
      using Suc.prems(2-4) by (intro Suc.IH [OF IH]) simp_all
    finally show ?thesis by simp
  qed
qed simp

text \<open>Until the processor has ended, a command that asks for the mutex keeps the loop where it is.\<close>

lemma waiting_until_failure:
  assumes "(gateway_step X sends who)\<^sup>*\<^sup>* s s'" and "gs_reviewer s = Waiting t c" and "gs_processor s = Running"
  shows "gs_reviewer s' = Waiting t c \<and> gs_processor s' = Running \<or> (\<exists>e. gs_processor s' = Ended e)"
  using assms(1)
proof (induction rule: rtranclp_induct)
  case base
  then show ?case using assms(2,3) by simp
next
  case (step s1 s2)
  from step.hyps(2) step.IH show ?case by (cases rule: gateway_step.cases) auto
qed

section \<open>Properties\<close>

text \<open>
  C2: no decision while the gateway works. Take any state the two tasks reach after a start-up. A change that
  is approved or rejected, and an interactive \<open>main\<close> that returns, both presuppose that the processor has
  ended because a write to the audit log failed: until then it keeps the mutex. A daemon decides nothing
  at all. As \<open>main\<close> sends no change itself, without another sender the queue stays empty and an interactive
  \<open>main\<close> never returns. While the processor runs, a command that waits for the lock stays waiting.
\<close>

theorem no_decision_before_failure:
  assumes "start_up X now io a f0 = (Inr (q, g), f)"
    and "(gateway_step X sends who)\<^sup>*\<^sup>* (gateway_init a q f) s"
  shows "(\<not> all_pending (fst (gs_gate s)) \<longrightarrow>
      \<not> arg_daemon a \<and> (\<exists>e \<in> audit_errors. gs_processor s = Ended e)) \<and>
    (main_returns s \<and> \<not> arg_daemon a \<longrightarrow> (\<exists>e \<in> audit_errors. gs_processor s = Ended e)) \<and>
    ((\<forall>c. \<not> sends c) \<longrightarrow> changes (fst (gs_gate s)) = fmempty \<and> (main_returns s \<longrightarrow> arg_daemon a)) \<and>
    (gs_processor s = Running \<and> gs_reviewer s = Waiting t c \<and> gateway_step X sends who s s' \<longrightarrow>
       gs_reviewer s' = Waiting t c)"
  using gateway_reachable [OF assms(2) [unfolded start_up_queue(1) [OF assms(1)]]]
    waiting_stays [of X sends who s s' t c]
  by (auto simp: gateway_inv_def main_returns_def all_pending_def split: processor.splits)

text \<open>The decision does happen after a failure: an execution that approves a change.\<close>

definition approve_turn :: turn where
  "approve_turn = \<lparr>turn_flush = True, turn_read = True, turn_line = ''approve c1'', turn_lock = True, turn_now = 2, turn_now' = 2, turn_io = IoOk, turn_ord = []\<rparr>"

lemma parse_approve_turn: "parse_command (turn_line approve_turn) = Approve ''c1''"
proof -
  have "word_like ''approve''" "word_like ''c1''"
    by (auto simp: word_like_def space_bytes_def white_space_def)
  then have "split_whitespace ''approve c1'' = [''approve'', ''c1'']"
    using split_two_words by fastforce
  moreover have "trim ''approve c1'' = ''approve c1''"
    by (simp add: trim_def trim_start_def trim_end_def trim_any.simps white_space_def)
  ultimately show ?thesis by (simp add: parse_command_def approve_turn_def)
qed

lemma approve_turn_works: "\<not> turn_fails approve_turn"
  by (simp add: turn_fails_def approve_turn_def utf8_follow_def byte_in_def)

definition demo_args :: gateway_args where
  "demo_args = default_args\<lparr>arg_max_pending := 10\<rparr>"

lemma demo_start_up:
  "start_up json_extern 0 IoOk demo_args (Some []) =
     (Inr (queue_new ''.'' ''HUMAN_REVIEW_LOG.json'' 10, gateway_new ''.'' 3600), Some [])"
  by (simp add: start_up_def demo_args_def default_args_def audit_new_def)

lemma approval_after_failure:
  "\<exists>s. (gateway_step json_extern (\<lambda>c. True) ''human'')\<^sup>*\<^sup>*
       (gateway_init demo_args (queue_new ''.'' ''HUMAN_REVIEW_LOG.json'' 10) (Some [])) s \<and>
     statuses (fst (gs_gate s)) ''c1'' = Some Approved"
proof -
  let ?step = "gateway_step json_extern (\<lambda>c. True) ''human''"
  let ?q0 = "queue_new ''.'' ''HUMAN_REVIEW_LOG.json'' 10"
  let ?s0 = "gateway_init demo_args ?q0 (Some [])"
  let ?s1 = "?s0\<lparr>gs_processor := Running\<rparr>"
  let ?h = "handle_incoming_change json_extern 0 OpenFails (demo_change ''c1'') (?q0, Some [])"
  let ?s2 = "?s1\<lparr>gs_processor := Ended (Err ''open''), gs_gate := snd ?h\<rparr>"
  let ?s3 = "?s2\<lparr>gs_reviewer := Waiting approve_turn (parse_command (turn_line approve_turn))\<rparr>"
  let ?s4 = "?s3\<lparr>gs_reviewer := AtPrompt,
      gs_gate := snd (run_command json_extern ''human'' approve_turn (Approve ''c1'') (snd ?h))\<rparr>"
  have h: "fst ?h = Inl (Err ''open'')"
    by (simp add: handle_incoming_change_def Let_def split_beta queue_new_def log_op_defs append_entry_def)
  have 1: "?step ?s0 ?s1" by (rule acquire) (simp add: gateway_init_def)
  obtain g where hg: "?h = (Inl (Err ''open''), g)" using h by (cases ?h) simp
  then have "process_queue json_extern [Incoming 0 OpenFails (demo_change ''c1'')] (?q0, Some []) =
      (Some (Err ''open''), g)" by simp
  then have "process_queue json_extern [Incoming 0 OpenFails (demo_change ''c1'')] (?q0, Some []) =
      (Some (Err ''open''), snd ?h)" by (simp only: hg snd_conv)
  then have "process_queue json_extern [Incoming 0 OpenFails (demo_change ''c1'')] (gs_gate ?s1) =
      (Some (Err ''open''), snd ?h)" by (simp only: gateway_init_def gateway_state.simps)
  then have 2: "?step ?s1 ?s2"
    by (rule process_fails [rotated 2]) simp_all
  have 3: "?step ?s2 ?s3"
    by (rule read_waits)
      (simp_all add: gateway_init_def parse_approve_turn leaves_loop_def demo_args_def default_args_def
        approve_turn_works)
  have 4: "?step ?s3 ?s4"
    using decide [of ?s3 approve_turn "Approve ''c1''" json_extern "\<lambda>c. True" "''human''"]
    by (simp add: parse_approve_turn gateway_init_def)
  have "statuses (fst (gs_gate ?s4)) ''c1'' = Some Approved"
    by (simp add: statuses_def approve_change_def handle_incoming_change_def Let_def split_beta queue_new_def
        demo_change_def split: sum.splits)
  moreover have "?step\<^sup>*\<^sup>* ?s0 ?s4"
    using 1 2 3 4 by (meson converse_rtranclp_into_rtranclp rtranclp.rtrancl_refl)
  ultimately show ?thesis by blast
qed

theorem no_decision_before_failure_witness:
  "\<exists>s e. (gateway_step json_extern (\<lambda>c. True) ''human'')\<^sup>*\<^sup>*
       (gateway_init demo_args (queue_new ''.'' ''HUMAN_REVIEW_LOG.json'' 10) (Some [])) s \<and>
     \<not> all_pending (fst (gs_gate s)) \<and> gs_processor s = Ended e"
proof -
  obtain s where s: "(gateway_step json_extern (\<lambda>c. True) ''human'')\<^sup>*\<^sup>*
      (gateway_init demo_args (queue_new ''.'' ''HUMAN_REVIEW_LOG.json'' 10) (Some [])) s"
    "statuses (fst (gs_gate s)) ''c1'' = Some Approved" using approval_after_failure by blast
  from s(2) have "\<not> all_pending (fst (gs_gate s))" by (fastforce simp: statuses_def all_pending_def)
  with no_decision_before_failure [OF demo_start_up s(1)] s(1) show ?thesis by blast
qed

text \<open>
  C3: the two tasks only ever run operations of the queue, one after another, whatever their interleaving.
  So the queue and the audit file of every reachable state are those of a sequential run; the queue stays
  within its capacity and the audit file extends the one of the start-up. None of the operations is a
  commit: an approved change stays approved, and no change is ever committed by the gateway.
\<close>

theorem gateway_runs_queue_ops:
  assumes "start_up X now io a f0 = (Inr (q, g), Some c)"
    and "(gateway_step X sends who)\<^sup>*\<^sup>* (gateway_init a q (Some c)) s"
  shows "\<exists>ops t. gs_gate s = run_queue X ops (q, Some c) \<and>
    hm_len (changes (fst (gs_gate s))) \<le> arg_max_pending a \<and> snd (gs_gate s) = Some (c @ t) \<and>
    statuses (fst (gs_gate s)) k \<in> {None, Some Pending, Some Approved, Some Rejected}"
proof -
  note q = start_up_queue [OF assms(1)]
  obtain ops where ops: "gs_gate s = run_queue X ops (q, Some c)" "\<forall>op \<in> set ops. \<not> is_commit op"
    using gateway_ops [OF assms(2)] by (auto simp: gateway_init_def)
  have "hm_len (changes (fst (gs_gate s))) \<le> arg_max_pending a"
    using len_run [of q X ops] by (simp add: ops(1) fst_run_queue q(1) queue_new_def hm_len_def fcard_fempty)
  moreover have "statuses (fst (gs_gate s)) k \<in> {None, Some Pending, Some Approved, Some Rejected}"
    unfolding ops(1) fst_run_queue using run_queue_uncommitted [OF ops(2), of q X]
    by (simp add: q(1) queue_new_def statuses_def)
  ultimately show ?thesis using ops(1) run_queue_extends [of X ops q c] by auto
qed

theorem gateway_runs_queue_ops_witness:
  "\<exists>(s :: gateway_state) ops. statuses (fst (gs_gate s)) ''c1'' = Some Approved \<and>
     gs_gate s = run_queue json_extern ops (queue_new ''.'' ''HUMAN_REVIEW_LOG.json'' 10, Some [])"
proof -
  obtain s where s: "(gateway_step json_extern (\<lambda>c. True) ''human'')\<^sup>*\<^sup>*
      (gateway_init demo_args (queue_new ''.'' ''HUMAN_REVIEW_LOG.json'' 10) (Some [])) s"
    "statuses (fst (gs_gate s)) ''c1'' = Some Approved" using approval_after_failure by blast
  from gateway_runs_queue_ops [OF demo_start_up s(1), of "''c1''"]
  obtain ops where "gs_gate s = run_queue json_extern ops (queue_new ''.'' ''HUMAN_REVIEW_LOG.json'' 10, Some [])"
    by (elim exE conjE)
  with s(2) show ?thesis by (intro exI [of _ s] exI [of _ ops] conjI)
qed








text \<open>
  C27: when the interactive loop ends. It returns if and only if there is a turn that leaves it and no turn
  before that one waits for the mutex for ever: then any fuel above the number of turns before it is
  enough, and it returns without an error exactly when the line could be read, so at \<open>exit\<close>, and otherwise with
  the error of \<open>flush\<close> or \<open>read_line\<close>. So at the end of standard input it reads empty lines for ever. While the
  queue is not locked by the processor, what the loop does is an execution of the reviewer's task; and once
  the processor has the mutex, a command that asks for it keeps the loop waiting, and keeps it from reading
  \<open>exit\<close>, until the processor has ended.
\<close>

theorem loop_ends_iff_exit:
  "((\<exists>n r. interactive_loop n X who ts st = Some r) \<longleftrightarrow>
      (\<exists>us t vs. ts = us @ t # vs \<and> (\<forall>u \<in> set us. \<not> leaves_loop u \<and> \<not> waits_for_lock u) \<and> leaves_loop t)) \<and>
   (\<forall>us t vs n. ts = us @ t # vs \<and> (\<forall>u \<in> set us. \<not> leaves_loop u \<and> \<not> waits_for_lock u) \<and> leaves_loop t \<and>
      length us < n \<longrightarrow>
      (\<exists>r. interactive_loop n X who ts st = Some r \<and> (fst r = Inr () \<longleftrightarrow> \<not> turn_fails t))) \<and>
   (\<forall>n r out g s. interactive_loop n X who ts (gs_gate s) = Some (r, out, g) \<and> \<not> gs_daemon s \<and>
      gs_reviewer s = AtPrompt \<and> gs_processor s \<noteq> Running \<longrightarrow>
      (gateway_step X sends who)\<^sup>*\<^sup>* s (s\<lparr>gs_reviewer := LeftLoop, gs_gate := g\<rparr>)) \<and>
   (\<forall>s s' t c. (gateway_step X sends who)\<^sup>*\<^sup>* s s' \<and> gs_reviewer s = Waiting t c \<and> gs_processor s = Running \<longrightarrow>
      gs_reviewer s' = Waiting t c \<and> gs_processor s' = Running \<or> (\<exists>e. gs_processor s' = Ended e))"
proof -
  have "\<exists>n r. interactive_loop n X who (us @ t # vs) st = Some r"
    if "\<forall>u \<in> set us. \<not> leaves_loop u \<and> \<not> waits_for_lock u" "leaves_loop t" for us t vs
    using interactive_loop_returns [OF that lessI, of X who vs st] by blast
  then have 1: "(\<exists>n r. interactive_loop n X who ts st = Some r) \<longleftrightarrow>
      (\<exists>us t vs. ts = us @ t # vs \<and> (\<forall>u \<in> set us. \<not> leaves_loop u \<and> \<not> waits_for_lock u) \<and> leaves_loop t)"
    using interactive_loop_only by metis
  have 2: "\<exists>r. interactive_loop n X who ts st = Some r \<and> (fst r = Inr () \<longleftrightarrow> \<not> turn_fails t)"
    if "ts = us @ t # vs \<and> (\<forall>u \<in> set us. \<not> leaves_loop u \<and> \<not> waits_for_lock u) \<and> leaves_loop t \<and> length us < n"
    for us t vs n using that interactive_loop_returns [of us t n X who vs st] by blast
  have 3: "(gateway_step X sends who)\<^sup>*\<^sup>* s (s\<lparr>gs_reviewer := LeftLoop, gs_gate := g\<rparr>)"
    if "interactive_loop n X who ts (gs_gate s) = Some (r, out, g) \<and> \<not> gs_daemon s \<and>
      gs_reviewer s = AtPrompt \<and> gs_processor s \<noteq> Running" for n r out g s
    using that by (blast intro: loop_is_task)
  have 4: "gs_reviewer s' = Waiting t c \<and> gs_processor s' = Running \<or> (\<exists>e. gs_processor s' = Ended e)"
    if "(gateway_step X sends who)\<^sup>*\<^sup>* s s' \<and> gs_reviewer s = Waiting t c \<and> gs_processor s = Running"
    for s s' t c using that waiting_until_failure by blast
  from 1 2 3 4 show ?thesis by (intro conjI allI impI) assumption+
qed

theorem loop_ends_iff_exit_witness:
  "\<not> (\<exists>n r. interactive_loop n json_extern ''human'' [approve_turn\<lparr>turn_lock := False\<rparr>, approve_turn\<lparr>turn_read := False\<rparr>]
       (rejected_queue, Some []) = Some r) \<and>
   (\<exists>r. interactive_loop 2 json_extern ''human'' [approve_turn, approve_turn\<lparr>turn_read := False\<rparr>] (rejected_queue, Some []) = Some r)"
proof -
  let ?w = "approve_turn\<lparr>turn_lock := False\<rparr>" and ?f = "approve_turn\<lparr>turn_read := False\<rparr>"
  have a: "\<not> leaves_loop approve_turn" "\<not> waits_for_lock approve_turn" "leaves_loop ?f" "waits_for_lock ?w" "\<not> leaves_loop ?w"
    using parse_approve_turn approve_turn_works
    by (simp_all add: leaves_loop_def waits_for_lock_def turn_fails_def) (simp add: approve_turn_def)
  note loop = loop_ends_iff_exit [of json_extern "''human''" _ "(rejected_queue, Some [])" "\<lambda>c. True"]
  have "\<not> (\<exists>us t vs. [?w, ?f] = us @ t # vs \<and> (\<forall>u \<in> set us. \<not> leaves_loop u \<and> \<not> waits_for_lock u) \<and> leaves_loop t)"
    using a(4,5) by (auto simp: Cons_eq_append_conv)
  then have "\<not> (\<exists>n r. interactive_loop n json_extern ''human'' [?w, ?f] (rejected_queue, Some []) = Some r)"
    unfolding conjunct1 [OF loop] .
  moreover have "\<exists>r. interactive_loop 2 json_extern ''human'' [approve_turn, ?f] (rejected_queue, Some []) = Some r \<and>
      (fst r = Inr () \<longleftrightarrow> \<not> turn_fails ?f)"
    by (rule conjunct1 [OF conjunct2 [OF loop], rule_format, of _ "[approve_turn]" _ "[]"]) (use a(1-3) in simp)
  ultimately show ?thesis by blast
qed

end
