(* ===== verification/Reasoning_Serde.thy ===== *)
theory Reasoning_Serde
  imports Event_Typing Serde
begin

text \<open>
  The derived \<open>Deserialize\<close> of the types in \<open>seb/reasoning/src/trace.rs\<close> and \<open>a2a_protocol.rs\<close>: steps, relations,
  traces and events, on JSON trees. The enums carry their variant in a member (\<open>#[serde(tag = "type")]\<close>),
  the identifier of a trace is not written (\<open>#[serde(skip)]\<close>) and read as empty, and a missing \<open>mode\<close>
  is empty (\<open>#[serde(default)]\<close>). Each type is an instance of \<open>json_codec\<close>.
\<close>

section \<open>Reading values\<close>

text \<open>A \<open>usize\<close>, a byte of a \<open>Vec<u8>\<close>, an \<open>f64\<close>, a \<open>Value\<close>.\<close>

definition from_index :: "json \<Rightarrow> nat option" where
  "from_index j = map_option unat (from_usize j)"

fun from_byte :: "json \<Rightarrow> char option" where
  "from_byte (JInt n) = (if 0 \<le> n \<and> n < 256 then Some (char_of (nat n)) else None)"
| "from_byte _ = None"

fun from_u16 :: "json \<Rightarrow> u16 option" where
  "from_u16 (JInt n) = (if 0 \<le> n \<and> n < 2 ^ 16 then Some (word_of_int n) else None)"
| "from_u16 _ = None"

fun from_f64 :: "json \<Rightarrow> fl option" where
  "from_f64 (JFloat f) = Some f"
| "from_f64 (JInt n) = Some (fl_of_rat binary64 (of_int n))"
| "from_f64 _ = None"

definition from_value :: "json \<Rightarrow> json option" where
  "from_value j = Some (to_value j)"

text \<open>
  An enum with its variant in the member \<open>tag\<close>: the variant and the other members, or the elements
  after the first when it is read from an array.
\<close>

fun tagged :: "string \<Rightarrow> json \<Rightarrow> (string \<times> json) option" where
  "tagged tag (JObj ms) =
     (case filter (\<lambda>(k, v). k = tag) ms of
        [(k, JStr v)] \<Rightarrow> Some (v, JObj (filter (\<lambda>(k, v). k \<noteq> tag) ms))
      | _ \<Rightarrow> None)"
| "tagged tag (JArr (JStr v # xs)) = Some (v, JArr xs)"
| "tagged tag _ = None"

section \<open>Steps and relations\<close>

definition step_from_json :: "json \<Rightarrow> reasoning_step option" where
  "step_from_json j = do {
     (v, c) \<leftarrow> tagged ''type'' j;
     if v = ''Retrieve'' then do {
       ms \<leftarrow> obj_fields [''source'', ''symbol'', ''result''] 3 c;
       src \<leftarrow> required ms ''source'' from_string;
       smb \<leftarrow> required ms ''symbol'' from_string;
       res \<leftarrow> required ms ''result'' from_value;
       Some (Retrieve src smb res) }
     else if v = ''Verify'' then do {
       ms \<leftarrow> obj_fields [''target'', ''method'', ''valid'', ''error''] 4 c;
       tgt \<leftarrow> required ms ''target'' from_string;
       mth \<leftarrow> required ms ''method'' from_string;
       ok \<leftarrow> required ms ''valid'' from_bool;
       err \<leftarrow> optional ms ''error'' from_string;
       Some (Verify tgt mth ok err) }
     else if v = ''ApplyRule'' then do {
       ms \<leftarrow> obj_fields [''rule_id'', ''premises'', ''conclusion''] 3 c;
       rid \<leftarrow> required ms ''rule_id'' from_string;
       prem \<leftarrow> required ms ''premises'' (from_vec from_string);
       con \<leftarrow> required ms ''conclusion'' from_string;
       Some (ApplyRule rid prem con) }
     else if v = ''CheckAuthorization'' then do {
       ms \<leftarrow> obj_fields [''principal'', ''action'', ''resource'', ''allowed'', ''reason''] 5 c;
       p \<leftarrow> required ms ''principal'' from_string;
       act \<leftarrow> required ms ''action'' from_string;
       res \<leftarrow> required ms ''resource'' from_string;
       ok \<leftarrow> required ms ''allowed'' from_bool;
       why \<leftarrow> required ms ''reason'' from_string;
       Some (CheckAuthorization p act res ok why) }
     else if v = ''Challenge'' then do {
       ms \<leftarrow> obj_fields [''target_trace_id'', ''target_step_index'', ''counter_evidence''] 3 c;
       tid \<leftarrow> required ms ''target_trace_id'' from_string;
       i \<leftarrow> required ms ''target_step_index'' from_index;
       ev \<leftarrow> required ms ''counter_evidence'' from_string;
       Some (Challenge tid i ev) }
     else if v = ''Rebuttal'' then do {
       ms \<leftarrow> obj_fields [''challenge_trace_id'', ''response''] 2 c;
       tid \<leftarrow> required ms ''challenge_trace_id'' from_string;
       r \<leftarrow> required ms ''response'' from_string;
       Some (Rebuttal tid r) }
     else if v = ''Conclude'' then do {
       ms \<leftarrow> obj_fields [''conclusion'', ''confidence''] 2 c;
       con \<leftarrow> required ms ''conclusion'' from_string;
       cf \<leftarrow> required ms ''confidence'' from_f64;
       Some (Conclude con cf) }
     else if v = ''Compose'' then do {
       ms \<leftarrow> obj_fields [''sub_trace_ids'', ''composition_rule''] 2 c;
       ids \<leftarrow> required ms ''sub_trace_ids'' (from_vec from_string);
       r \<leftarrow> required ms ''composition_rule'' from_string;
       Some (Compose ids r) }
     else None }"

definition relation_from_json :: "json \<Rightarrow> trace_relation option" where
  "relation_from_json j = do {
     (v, c) \<leftarrow> tagged ''kind'' j;
     if v = ''Extends'' then do {
       ms \<leftarrow> obj_fields [''parent_trace_id''] 1 c;
       p \<leftarrow> required ms ''parent_trace_id'' from_string;
       Some (Extends p) }
     else if v = ''Challenges'' then do {
       ms \<leftarrow> obj_fields [''parent_trace_id''] 1 c;
       p \<leftarrow> required ms ''parent_trace_id'' from_string;
       Some (Challenges p) }
     else if v = ''Rebuts'' then do {
       ms \<leftarrow> obj_fields [''challenge_trace_id''] 1 c;
       p \<leftarrow> required ms ''challenge_trace_id'' from_string;
       Some (Rebuts p) }
     else if v = ''Composes'' then do {
       ms \<leftarrow> obj_fields [''sub_trace_ids''] 1 c;
       ids \<leftarrow> required ms ''sub_trace_ids'' (from_vec from_string);
       Some (Composes ids) }
     else None }"

definition traced_step_from_json :: "extern \<Rightarrow> json \<Rightarrow> traced_step option" where
  "traced_step_from_json X j = do {
     ms \<leftarrow> obj_fields [''index'', ''timestamp'', ''step'', ''step_hash''] 4 j;
     i \<leftarrow> required ms ''index'' from_index;
     ts \<leftarrow> required ms ''timestamp'' (from_time X);
     s \<leftarrow> required ms ''step'' step_from_json;
     h \<leftarrow> required ms ''step_hash'' from_string;
     Some \<lparr>step_index = i, step_timestamp = ts, step_payload = s, step_hash = h\<rparr> }"

section \<open>Traces and events\<close>

definition trace_from_json :: "extern \<Rightarrow> json \<Rightarrow> reasoning_trace option" where
  "trace_from_json X j = do {
     ms \<leftarrow> obj_fields
       [''agent_id'', ''competency'', ''steps'', ''parent_relations'', ''initiating_query'', ''mode'',
        ''duration_ms'', ''created_at'', ''signature'', ''sequence_no''] 10 j;
     ag \<leftarrow> required ms ''agent_id'' from_string;
     cmp \<leftarrow> required ms ''competency'' from_string;
     st \<leftarrow> required ms ''steps'' (from_vec (traced_step_from_json X));
     pr \<leftarrow> required ms ''parent_relations'' (from_vec relation_from_json);
     q \<leftarrow> optional ms ''initiating_query'' from_string;
     md \<leftarrow> defaulted ms ''mode'' [] from_string;
     d \<leftarrow> required ms ''duration_ms'' from_usize;
     cr \<leftarrow> required ms ''created_at'' (from_time X);
     sig \<leftarrow> optional ms ''signature'' (from_vec from_byte);
     sn \<leftarrow> required ms ''sequence_no'' from_usize;
     Some \<lparr>trace_id = [], agent_id = ag, competency = cmp, steps = st, parent_relations = pr,
           initiating_query = q, mode = md, duration_ms = d, created_at = cr, signature = sig,
           sequence_no = sn\<rparr> }"

text \<open>The tree that \<open>as_json_line\<close> prints, and its reader.\<close>

definition event_to_json :: "extern \<Rightarrow> a2a_event \<Rightarrow> json" where
  "event_to_json X e =
     JObj [(''event_type'', JInt (uint (event_code e))),
           (''timestamp'', JStr (ts_serde X (event_timestamp e))),
           (''partition'', JStr (event_partition e)),
           (''payload'', event_payload e)]"

definition event_from_json :: "extern \<Rightarrow> json \<Rightarrow> a2a_event option" where
  "event_from_json X j = do {
     ms \<leftarrow> obj_fields [''event_type'', ''timestamp'', ''partition'', ''payload''] 4 j;
     c \<leftarrow> required ms ''event_type'' from_u16;
     ts \<leftarrow> required ms ''timestamp'' (from_time X);
     p \<leftarrow> required ms ''partition'' from_string;
     v \<leftarrow> required ms ''payload'' from_value;
     Some \<lparr>event_code = c, event_timestamp = ts, event_partition = p, event_payload = v\<rparr> }"

section \<open>Round trips\<close>

lemma from_vec_jstrs [simp]: "from_vec from_string (jstrs xs) = Some xs"
  using those_map [of xs from_string JStr] by (simp add: jstrs_def)

lemma from_index_of [simp]: "n < 2 ^ 64 \<Longrightarrow> from_index (JInt (int n)) = Some n"
  by (simp add: from_index_def unsigned_of_nat take_bit_nat_eq_self)

lemma from_f64_finite: "fl_finite c \<Longrightarrow> from_f64 (jfloat c) = Some c"
  by (cases c) simp_all

lemma from_bytes [simp]: "from_option (from_vec from_byte) (jbytes sig) = Some sig"
proof (cases sig)
  case (Some bs)
  have "from_byte (JInt (of_char c)) = Some c" for c
  proof -
    have "(of_char c :: int) = int (of_char c)" by (rule of_nat_of_char [symmetric])
    moreover have "(of_char c :: nat) < 256" by (rule nat_of_char_less_256)
    ultimately show ?thesis by (simp only: from_byte.simps) simp
  qed
  then show ?thesis using those_map [of bs from_byte "\<lambda>c. JInt (of_char c)"] Some by (simp add: jbytes_def comp_def)
qed (simp add: jbytes_def)

text \<open>What a value must be to be read back: an \<open>f64\<close> is finite, an index fits, a \<open>Value\<close> has its keys in order.\<close>

fun readable_step :: "reasoning_step \<Rightarrow> bool" where
  "readable_step (Retrieve src smb res) \<longleftrightarrow> to_value res = res"
| "readable_step (Challenge tid i ev) \<longleftrightarrow> i < 2 ^ 64"
| "readable_step (Conclude con c) \<longleftrightarrow> fl_finite c"
| "readable_step _ \<longleftrightarrow> True"

interpretation step_json: json_codec step_to_json step_from_json readable_step
proof
  show "readable_step s \<Longrightarrow> step_from_json (step_to_json s) = Some s" for s
    by (cases s)
      (simp_all add: step_from_json_def obj_fields_def serde_defs from_value_def from_f64_finite
        del: from_vec.simps)
qed

interpretation relation_json: json_codec relation_to_json relation_from_json "\<lambda>_. True"
proof
  show "relation_from_json (relation_to_json r) = Some r" for r
    by (cases r) (simp_all add: relation_from_json_def obj_fields_def serde_defs del: from_vec.simps)
qed

definition readable_traced :: "extern \<Rightarrow> traced_step \<Rightarrow> bool" where
  "readable_traced X s \<longleftrightarrow> ts_reads X \<and> step_index s < 2 ^ 64 \<and> readable_step (step_payload s)"

interpretation traced_json: json_codec "traced_step_to_json X" "traced_step_from_json X" "readable_traced X" for X
proof
  fix s assume "readable_traced X s"
  then show "traced_step_from_json X (traced_step_to_json X s) = Some s"
    by (simp add: readable_traced_def traced_step_from_json_def traced_step_to_json_def obj_fields_def serde_defs
        ts_reads_def step_json.rd_wr)
qed

lemma trace_from_json_to:
  assumes "ts_reads X" and "\<forall>s \<in> set (steps t). readable_traced X s"
  shows "trace_from_json X (trace_to_json X t) = Some (t\<lparr>trace_id := []\<rparr>)"
    and "trace_from_json X (JObj (filter (\<lambda>(k, v). k \<noteq> ''mode'') (members (trace_to_json X t)))) =
      Some (t\<lparr>trace_id := [], mode := []\<rparr>)"
  using traced_json.read_vec [OF assms(2)] relation_json.read_vec [of "parent_relations t"] assms(1)
  by (simp_all add: trace_from_json_def trace_to_json_def obj_fields_def serde_defs ts_reads_def
      del: from_vec.simps from_usize.simps)

text \<open>A trace without its identifier is an instance too.\<close>

interpretation trace_json: json_codec "trace_to_json X" "trace_from_json X"
  "\<lambda>t. ts_reads X \<and> (\<forall>s \<in> set (steps t). readable_traced X s) \<and> trace_id t = []" for X
  by unfold_locales (simp add: trace_from_json_to)

text \<open>Reading a \<open>Value\<close> twice changes nothing: its keys are in order.\<close>

lemma bt_insert_last: "\<forall>k' \<in> set (map fst m). k' < k \<Longrightarrow> bt_insert k v m = m @ [(k, v)]"
  by (induction m) (auto dest: less_not_sym)

lemma fold_bt_insert_sorted:
  "sorted_wrt (<) (map fst (m @ kvs)) \<Longrightarrow> fold (\<lambda>(k, v). bt_insert k v) kvs m = m @ kvs"
proof (induction kvs arbitrary: m)
  case (Cons kv kvs)
  obtain k v where kv: "kv = (k, v)" by fastforce
  have "bt_insert k v m = m @ [(k, v)]"
    using Cons.prems by (intro bt_insert_last) (auto simp: kv sorted_wrt_append)
  with Cons.IH [of "m @ [(k, v)]"] Cons.prems show ?case by (simp add: kv)
qed simp

lemma fst_set_bt_insert: "fst ` set (bt_insert k v m) = insert k (fst ` set m)"
  by (induction k v m rule: bt_insert.induct) (simp_all add: insert_commute)

lemma sorted_bt_insert: "sorted_wrt (<) (map fst m) \<Longrightarrow> sorted_wrt (<) (map fst (bt_insert k v m))"
proof (induction m)
  case (Cons kv m)
  obtain k' v' where kv: "kv = (k', v')" by fastforce
  have "\<forall>x \<in> fst ` set (bt_insert k v m). k' < x" if "k' < k"
    using that Cons.prems by (auto simp: kv fst_set_bt_insert)
  then show ?case using Cons by (auto simp: kv)
qed simp

lemma set_bt_insert: "set (bt_insert k v m) \<subseteq> insert (k, v) (set m)"
  by (induction k v m rule: bt_insert.induct) (simp_all, blast)

lemma fold_bt_insert:
  "sorted_wrt (<) (map fst m) \<Longrightarrow> sorted_wrt (<) (map fst (fold (\<lambda>(k, v). bt_insert k v) kvs m)) \<and>
   set (fold (\<lambda>(k, v). bt_insert k v) kvs m) \<subseteq> set m \<union> set kvs"
proof (induction kvs arbitrary: m)
  case (Cons kv kvs)
  obtain k v where kv: "kv = (k, v)" by fastforce
  from Cons.IH [OF sorted_bt_insert [OF Cons.prems, of k v]] set_bt_insert [of k v m]
  show ?case by (auto simp: kv)
qed simp

lemma to_value_idem [simp]: "to_value (to_value j) = to_value j"
proof (induction j rule: to_value.induct)
  case (1 kvs)
  let ?m = "fold (\<lambda>(k, v). bt_insert k v) (map (\<lambda>(k, v). (k, to_value v)) kvs) []"
  have m: "sorted_wrt (<) (map fst ?m)" "set ?m \<subseteq> set (map (\<lambda>(k, v). (k, to_value v)) kvs)"
    using fold_bt_insert [of "[]" "map (\<lambda>(k, v). (k, to_value v)) kvs"] by simp_all
  have "map (\<lambda>(k, v). (k, to_value v)) ?m = ?m"
    using m(2) 1 by (intro map_idI) force
  then show ?case using fold_bt_insert_sorted [of "[]" ?m] m(1) by (simp add: jmap_def)
qed simp_all

interpretation event_json: json_codec "event_to_json X" "event_from_json X"
  "\<lambda>e. ts_reads X \<and> to_value (event_payload e) = event_payload e" for X
proof
  fix e :: a2a_event
  have "uint (event_code e) < 2 ^ 16" using unsigned_less [of "event_code e", where ?'a = int] by simp
  moreover assume "ts_reads X \<and> to_value (event_payload e) = event_payload e"
  ultimately show "event_from_json X (event_to_json X e) = Some e"
    by (simp add: event_from_json_def event_to_json_def obj_fields_def serde_defs ts_reads_def from_value_def)
qed

lemma as_json_line_tree: "as_json_line X e = json_text X (event_to_json X e)"
  by (simp add: as_json_line_def event_to_json_def)

lemma emitted_value: "to_value (event_payload (emitted X agent op)) = event_payload (emitted X agent op)"
  by (cases op) (simp_all add: emitted_def emit_defs log_push_def handler_new_def Let_def)

section \<open>Trees that keep their text\<close>

text \<open>
  \<open>serde_json\<close> reads back the number of a floating point numeral only approximately (without its feature
  \<open>float_roundtrip\<close>), and its recursion limit refuses what is nested deeper than 127 levels. What has neither is read back exactly.
\<close>

fun float_free :: "json \<Rightarrow> bool" where
  "float_free (JFloat f) \<longleftrightarrow> False"
| "float_free (JArr xs) \<longleftrightarrow> list_all float_free xs"
| "float_free (JObj ms) \<longleftrightarrow> list_all (\<lambda>(k, v). float_free v) ms"
| "float_free _ \<longleftrightarrow> True"

fun nested_within :: "nat \<Rightarrow> json \<Rightarrow> bool" where
  "nested_within n (JArr xs) \<longleftrightarrow> 0 < n \<and> list_all (nested_within (n - 1)) xs"
| "nested_within n (JObj ms) \<longleftrightarrow> 0 < n \<and> list_all (\<lambda>(k, v). nested_within (n - 1) v) ms"
| "nested_within n _ \<longleftrightarrow> True"

definition exact_json :: "nat \<Rightarrow> json \<Rightarrow> bool" where
  "exact_json n j \<longleftrightarrow> float_free j \<and> nested_within n j"

lemma exact_json_simps [simp]:
  "exact_json n JNull" "exact_json n (JBool b)" "exact_json n (JInt i)" "exact_json n (JStr s)" "exact_json n (jopt x)"
  "exact_json n (JObj ms) \<longleftrightarrow> 0 < n \<and> (\<forall>(k, v) \<in> set ms. exact_json (n - 1) v)"
  "exact_json n (JArr xs) \<longleftrightarrow> 0 < n \<and> (\<forall>v \<in> set xs. exact_json (n - 1) v)"
  by (auto simp: exact_json_def list_all_iff jopt_def split: option.split)

lemma exact_jstrs [simp]: "0 < n \<Longrightarrow> exact_json n (jstrs xs)"
  by (auto simp: jstrs_def)

lemma exact_to_value: "exact_json n j \<Longrightarrow> exact_json n (to_value j)"
proof (induction j arbitrary: n rule: to_value.induct)
  case (1 kvs)
  let ?m = "fold (\<lambda>(k, v). bt_insert k v) (map (\<lambda>(k, v). (k, to_value v)) kvs) []"
  have "set ?m \<subseteq> set (map (\<lambda>(k, v). (k, to_value v)) kvs)"
    using fold_bt_insert [of "[]" "map (\<lambda>(k, v). (k, to_value v)) kvs"] by simp
  moreover have "exact_json (n - 1) (to_value v)" if "(k, v) \<in> set kvs" for k v
    using 1(2) that by (intro 1(1) [of "(k, v)"]) auto
  ultimately show ?case using 1(2) by (fastforce simp: jmap_def)
qed auto

text \<open>The operations whose event has no such number and no deep value in it.\<close>

fun exact_op :: "a2a_op \<Rightarrow> bool" where
  "exact_op (OpStep now tid i j) \<longleftrightarrow> exact_json 125 j"
| "exact_op (OpTraceComplete now tid d n c) \<longleftrightarrow> (\<forall>f. c = Some f \<longrightarrow> \<not> fl_finite f)"
| "exact_op _ \<longleftrightarrow> True"

lemma emitted_exact: "exact_op op \<Longrightarrow> exact_json 127 (event_to_json X (emitted X agent op))"
proof -
  assume op: "exact_op op"
  have "exact_json 126 (event_payload (emitted X agent op))"
  proof (cases op)
    case (OpTraceComplete now tid d n c)
    have "exact_json 125 (case c of None \<Rightarrow> JNull | Some f \<Rightarrow> jfloat f)"
    proof (cases c)
      case (Some f)
      with op OpTraceComplete show ?thesis by (cases f) simp_all
    qed simp
    then show ?thesis using OpTraceComplete
      by (auto simp: emitted_def emit_defs log_push_def handler_new_def trace_complete_tree_def intro!: exact_to_value
          simp del: to_value.simps)
  qed (use op in \<open>auto simp: emitted_def emit_defs log_push_def handler_new_def Let_def trace_start_tree_def step_tree_def
      challenge_tree_def composition_tree_def intro!: exact_to_value simp del: to_value.simps split: option.split\<close>)
  then show ?thesis by (simp add: event_to_json_def)
qed

section \<open>Properties\<close>

text \<open>
  C15: a trace survives its serialization. Reading the tree of a trace whose confidences are finite, whose
  indexes fit in 64 bits and whose results are values gives the trace without its identifier, with all steps,
  relations, hashes and the signature; finalizing what was read restores the identifier of the finalized
  trace, so a finalized trace is recovered entirely. A trace without a mode is read with the empty mode.
\<close>

theorem trace_serde:
  assumes "ts_reads X" and "\<forall>s \<in> set (steps t). readable_traced X s"
  shows "trace_from_json X (trace_to_json X t) = Some (t\<lparr>trace_id := []\<rparr>) \<and>
    map_option (\<lambda>u. snd (finalize X u)) (trace_from_json X (trace_to_json X (snd (finalize X t)))) =
      Some (snd (finalize X t)) \<and>
    trace_from_json X (JObj (filter (\<lambda>(k, v). k \<noteq> ''mode'') (members (trace_to_json X t)))) =
      Some (t\<lparr>trace_id := [], mode := []\<rparr>)"
proof -
  have "steps (snd (finalize X t)) = steps t" by (simp add: finalize_eq Let_def)
  with assms show ?thesis
    by (simp add: trace_from_json_to) (simp add: finalize_eq Let_def trace_to_json_def)
qed

definition demo_conclusion :: reasoning_trace where
  "demo_conclusion =
     add_step demo_extern 2 (Conclude ''done'' (Fin False 1))
       (add_step demo_extern 1 (Challenge ''t0'' 3 ''evidence'') (demo_trace ''t1'' []))"

theorem trace_serde_witness:
  "map_option (\<lambda>u. snd (finalize demo_extern u))
     (trace_from_json demo_extern (trace_to_json demo_extern (snd (finalize demo_extern demo_conclusion)))) =
   Some (snd (finalize demo_extern demo_conclusion))"
proof -
  have "\<forall>s \<in> set (steps demo_conclusion). readable_traced demo_extern s"
    by (simp add: demo_conclusion_def demo_trace_def trace_new_def add_step_def readable_traced_def ts_reads_demo)
  from trace_serde [OF ts_reads_demo this] show ?thesis by blast
qed

text \<open>
  C26: the log of a handler reads back from its lines, as far as JSON text is exact. After any operations,
  every line that \<open>as_json_line\<close> prints for an event of the log without a floating point number, and without
  more than 127 levels of nesting, parses to the event, with its code, time, partition and payload. Every
  event is such an event but a completion with a finite confidence and a step whose value has such a number
  or more than 125 levels.
\<close>

theorem event_lines_read_back:
  assumes "ts_reads X" and es_def: "es = get_events (fold (apply_a2a_op X) ops (handler_new agent))"
    and "\<forall>e \<in> set es. exact_json 127 (event_to_json X e) \<longrightarrow> reads_back X (event_to_json X e)"
  shows "(\<forall>e \<in> set es. exact_json 127 (event_to_json X e) \<longrightarrow>
      Option.bind (json_parse X (as_json_line X e)) (event_from_json X) = Some e) \<and>
    length es = length ops \<and> (\<forall>i < length ops. exact_op (ops ! i) \<longrightarrow> exact_json 127 (event_to_json X (es ! i)))"
proof -
  have es: "es = map (emitted X agent) ops" by (simp add: es_def get_events_def event_log_run)
  have "to_value (event_payload e) = event_payload e" if "e \<in> set es" for e
    using that by (auto simp: es emitted_value)
  then have "Option.bind (json_parse X (as_json_line X e)) (event_from_json X) = Some e"
    if "e \<in> set es" "exact_json 127 (event_to_json X e)" for e
    using that assms(1,3) event_json.rd_wr [of X e] by (simp add: as_json_line_tree reads_back_def)
  then show ?thesis by (simp add: es emitted_exact)
qed

text \<open>A parser that knows the line of one event.\<close>

definition event_extern :: extern where
  "event_extern =
     demo_extern\<lparr>json_parse := (\<lambda>s. Some (event_to_json demo_extern
       (emitted demo_extern ''a'' (OpChallenge 0 ''u'' ''t1'' ''evidence'' (Some 2)))))\<rparr>"

lemma event_extern_simps [simp]:
  "ts_reads event_extern" "event_to_json event_extern = event_to_json demo_extern"
  "emitted event_extern agent (OpChallenge now u t e i) = emitted demo_extern agent (OpChallenge now u t e i)"
  using ts_reads_demo
  by (simp_all add: event_extern_def ts_reads_def event_to_json_def [abs_def] emitted_def emit_challenge_def)

theorem event_lines_read_back_witness:
  "Option.bind (json_parse event_extern
       (as_json_line event_extern (emitted demo_extern ''a'' (OpChallenge 0 ''u'' ''t1'' ''evidence'' (Some 2)))))
     (event_from_json event_extern) =
   Some (emitted demo_extern ''a'' (OpChallenge 0 ''u'' ''t1'' ''evidence'' (Some 2)))"
proof -
  let ?op = "OpChallenge 0 ''u'' ''t1'' ''evidence'' (Some 2)"
  let ?es = "get_events (fold (apply_a2a_op event_extern) [?op] (handler_new ''a''))"
  have es: "?es = [emitted demo_extern ''a'' ?op]"
    unfolding get_events_run by (simp add: handler_new_def get_events_def)
  have "\<forall>e \<in> set ?es. exact_json 127 (event_to_json event_extern e) \<longrightarrow>
      reads_back event_extern (event_to_json event_extern e)"
    unfolding es by (simp add: reads_back_def) (simp add: event_extern_def)
  note read = event_lines_read_back [OF event_extern_simps(1) refl this, unfolded es]
  have "exact_json 127 (event_to_json event_extern (emitted demo_extern ''a'' ?op))"
    using emitted_exact [of ?op demo_extern "''a''"] by simp
  then show ?thesis using conjunct1 [OF read] by (meson list.set_intros(1))
qed

end
