(* ===== verification/Spec2Isabelle.thy ===== *)
theory Spec2Isabelle
  imports Universe_Tests Reasoning_Tests Gateway_Tests Shrewd_Tests Human_Gateway Reasoning_Serde
begin

text \<open>
  \<^bold>\<open>A verification development for the Rust crates of the Sovereign Event Bus\<close>

  The repository describes an event bus in layers. Three crates and one file of it are Rust, and this
  development models them: the reasoning layer (\<open>seb/reasoning/src\<close>), the universe of artifacts
  (\<open>seb/universe/src\<close>), the human review gateway (\<open>seb/human_touch/src\<close>) and the verdict engine
  (\<open>seb/runtime/shrewd/shrewd_rtx.rs\<close>).

  \<^bold>\<open>Parts and how they interact\<close>

  \<^item> Reasoning. An agent builds a trace of hashed steps (\<open>trace.rs\<close>, theory \<open>Trace\<close>). Hooks of the kernel and
    of the policy gate build such traces and log an event for each in a protocol handler
    (\<open>integration.rs\<close>, \<open>Integration\<close>; \<open>a2a_protocol.rs\<close>, \<open>A2A_Protocol\<close>). A stream manager keeps
    subscriptions, events by partition and traces by identifier, and draws diagrams and timelines
    (\<open>streaming.rs\<close>, \<open>Streaming\<close>); the knowledge layer of \<open>integration.rs\<close> stores traces in one.
  \<^item> Universe. A manifest describes an artifact (\<open>manifest.rs\<close>, \<open>Manifest\<close>); the gate checks it in five
    steps and promotes it (\<open>compile_verify_merge.rs\<close>, \<open>CVM_Gate\<close>); the universe stores and indexes it
    (\<open>search_substrate.rs\<close>, \<open>Search_Substrate\<close>).
  \<^item> Human gateway. A change waits in the queue (\<open>review_queue.rs\<close>, \<open>Review_Queue\<close>) until a reviewer decides
    (\<open>main.rs\<close>, \<open>Human_Gateway\<close>); every operation writes a line to the audit log (\<open>audit_log.rs\<close>,
    \<open>Audit_Log\<close>, with a scanner for JSON text in \<open>Json_Scan\<close>); an approved change is committed with the approval in its message
    (\<open>commit_gateway.rs\<close>, \<open>Commit_Gateway\<close>).
  \<^item> Verdict engine. A window of ticks gives a verdict, the verdict a command, and a consumer publishes it on
    a timer (\<open>shrewd_rtx.rs\<close>, \<open>Shrewd_Rtx\<close>).
  \<^item> The example program of the universe (\<open>universe_demo.rs\<close>, \<open>Universe_Demo\<close>) and the unit tests
    of all files (\<open>Universe_Tests\<close>, \<open>Reasoning_Tests\<close>, \<open>Gateway_Tests\<close>, \<open>Shrewd_Tests\<close>) run on the model.

  \<^bold>\<open>How the code is modelled\<close>

  A struct is a record, an enum a datatype, each function of the code one definition of the same name
  (with a prefix where two types share a method name). A method with \<open>&mut self\<close> returns the changed
  state; an \<open>async\<close> method is one step, and where several tasks share a lock (\<open>Human_Gateway\<close>) the
  interleavings are an inductive step relation. A \<open>Result\<close>, and a method that can panic, returns a \<open>res\<close>
  (\<open>SEB_Prelude\<close>): \<open>Inl Panic\<close>, \<open>Inl (Err text)\<close> or \<open>Inr\<close>. Integers of a fixed width are words; \<open>usize\<close>
  used as a length is \<open>nat\<close>. Strings are lists of UTF-8 bytes, so slices can hit the inside of a character
  (\<open>Rust_Strings\<close>: the methods of \<open>str\<close> that the code calls). \<open>f32\<close> and \<open>f64\<close> are exact rationals rounded to
  nearest even, with infinities and not-a-number (\<open>Rust_Floats\<close>). A \<open>HashMap\<close> is a finite map, and wherever
  the code iterates over one the iteration order is an argument (\<open>iter_order\<close>).

  What \<open>serde\<close> derives is modelled on JSON trees: writing for every type that is written, reading for the types
  that are read back or sent as events: the manifest of a repository, the entries of the log, traces and events
  (\<open>Serde\<close>, \<open>Manifest\<close>, \<open>Audit_Log\<close>, \<open>Reasoning_Serde\<close>).

  Code that is not in the repository is an argument: the record \<open>extern\<close> of \<open>Externals\<close> has BLAKE3, the text
  and the parser of \<open>serde_json\<close> and the formats and differences of \<open>chrono\<close>; the record \<open>git\<close> of \<open>Commit_Gateway\<close> has
  \<open>git2\<close>. What a theorem needs of them is a named hypothesis of documented behaviour: a digest has 64
  hexadecimal digits, a time is written injectively and reads back, a difference is truncated to milliseconds, JSON
  text is one line of UTF-8 that parses back to its tree (not assumed of trees with floating point numbers or
  nested beyond the recursion limit), the parser accepts JSON only, a commit can be found with its message but
  for newlines at its start. Concrete instances satisfy them for the witnesses; \<open>json_extern\<close> prints real JSON. Clock readings, fresh identifiers and
  the outcomes of system calls (\<open>io_outcome\<close>: a directory, an open, a write or a sync that fails, a write
  that stops after some bytes) are arguments too.

  \<^bold>\<open>Interfaces\<close>

  The contracts that components share are locales of \<open>SEB_Prelude\<close>, each interpreted on the code's own
  definitions: \<open>codec\<close> (tiers, languages, event codes, partition paths), \<open>append_log\<close> (steps of a
  trace, event log, subscriptions), \<open>keyed_log\<close> (the handler's queries), \<open>indexed_log\<close> (event buffer, indexes of
  the universe) and \<open>keyed_store\<close> (artifacts, stored traces). \<open>json_codec\<close> of \<open>Serde\<close> is the contract of a
  derived serialization (tiers, languages, invariants, proofs, tests, metadata, manifests, repositories, audit
  entries, steps, relations, traces, events). \<open>artifact_tier\<close> is a \<open>linorder\<close>.

  \<^bold>\<open>What the lemmas show\<close>

  \<^item> \<open>Review_Queue\<close>, \<open>Audit_Log\<close>: the audit log only grows, reads back, and replays to the status of every
    change; the exceptions are proved as such (entries that look like the header, torn writes, failed
    writes, a full queue, commits without approval).
  \<^item> \<open>Human_Gateway\<close>: the invariant of the two tasks by rule induction, when the interactive loop ends, errors
    of standard input and output and the wait for the mutex included, that it is an execution of the
    reviewer's task, what a command can name. \<open>Commit_Gateway\<close>: the approval in a commit message reads back, and when it can be
    forged or is refused.
  \<^item> \<open>CVM_Gate\<close>, \<open>Search_Substrate\<close>: the gate refines a list of checks cut at the first failure, and the
    verdict is a predicate on the manifest; the queries are characterised for every history of
    additions, and after saving and loading through the derived serialization; tiers change only by
    promotion.
  \<^item> \<open>Trace\<close>: traces stay intact, the identifier is an injective function of the content up to the digest,
    the search for cycles terminates and reports exactly that two paths meet, so every cycle and also
    shared ancestors; which renderings panic.
  \<^item> \<open>A2A_Protocol\<close>, \<open>Streaming\<close>, \<open>Integration\<close>: the logs and stores answer queries with what was put in;
    diagrams, timelines and bars are right up to rounding, in the arithmetic of the code.
  \<^item> \<open>Event_Typing\<close>: every logged event carries the payload struct of its code, so the types of \<open>a2a_protocol.rs\<close>
    hold although payloads are untyped JSON values.
  \<^item> \<open>Reasoning_Serde\<close>: traces are read back from their trees, all but the identifier, which finalizing
    restores; events from their lines, but for those with floating point numbers or deep values.
  \<^item> \<open>Shrewd_Rtx\<close>: the engine returns the majority verdict, rounding included; what padding does; what the
    consumer publishes.
  \<^item> \<open>Universe_Demo\<close>: the example program prints one transcript, up to the durations. The theories of tests
    and the lemma \<open>repository_tests_hold\<close>: the model passes all unit tests of the repository.
  \<^item> Below: the stream manager and the handlers agree, a reviewed commit passes through queue, git and audit
    log consistently, and an artifact goes from the gate into the universe.

  \<^bold>\<open>Fuel and bounds\<close>

  Only the interactive loop has fuel, one unit per turn; more units than there are turns before the one that
  leaves the loop suffice (\<open>loop_ends_iff_exit\<close>), and without such a turn, or after one that waits for the mutex for
  ever, no fuel does. Everything else terminates by
  structure or by a measure; the nested search for cycles terminates because the visited list grows within
  the identifiers of the traces. The theorems about verdicts assume a window below \<open>2 ^ 24\<close> ticks, up to which
  binary32 counts exactly; the code uses 1000.

  \<^bold>\<open>Not modelled\<close>

  The lines written to the program's own log by \<open>tracing\<close>, except where evaluating their arguments can panic
  or they are all that an operation does; the parser of the command line; the subscription of the verdict
  engine to NATS, which the source only announces; a \<open>println!\<close> that panics because standard output is closed
  (a flush that fails is modelled), so the tasks of the gateway end only as the theorems about them say while
  standard output can be written; the re-exports of \<open>lib.rs\<close>; the example program
  \<open>demo.rs\<close> of the reasoning layer, which does not compile (it passes an \<open>Option\<close> to \<open>set_query\<close>); the
  parts of the repository in Erlang, Ada, C, Prolog, Lean and other languages. Dropping a future half-way is
  not considered: every method runs to its end.
\<close>

section \<open>Properties that span components\<close>

text \<open>
  C13: the stream manager mirrors the handlers. When every event of a handler is emitted to a stream manager,
  the events the manager has for the path of a partition are those the handler answers for the partition;
  and when all events of two handlers are emitted, they are those of the first followed by those of the
  second.
\<close>

theorem stream_mirrors_handlers:
  "get_partition_events (fold emit_event (get_events h) manager_new) (partition_path p) =
     get_events_by_partition h p \<and>
   get_partition_events (fold emit_event (get_events h @ get_events h') manager_new) (partition_path p) =
     get_events_by_partition h p @ get_events_by_partition h' p"
proof -
  have new: "get_partition_events manager_new k = []" for k
    by (simp add: get_partition_events_def manager_new_def)
  show ?thesis
    unfolding event_index.query_fold
    by (simp add: new get_events_by_partition_def get_events_def)
qed

text \<open>
  C10: a reviewed commit, from the approval to the audit log. When the commit of a known change with its
  evidence succeeds and the log can be written, approving the change before and marking it committed after
  succeed too. They leave a record that is committed and names the reviewer and the commit, and the two
  lines at the end of the log; and the commit verifies with the same reviewer and change, as long as the
  reviewer, the date, the evidence and the identifier have no line break in them and no white space around
  them and the reviewer is not called \<open>unknown\<close>.
\<close>

theorem reviewed_commit_workflow:
  assumes "git_keeps_message G" and "fmlookup (changes q) cid = Some rec"
    and "commit_with_approval G X t g cid who msg (ch_evidence (cr_change rec)) w = Inr (h, w')"
    and "utf8_valid (commit_body X t msg who (ch_evidence (cr_change rec)) cid)"
    and "clean who" and "clean (rfc3339_secs X t)" and "clean (ch_evidence (cr_change rec))" and "clean cid"
    and "who \<noteq> ''unknown''"
  shows "\<exists>q' rec' v.
    mark_committed X t3 IoOk cid h (snd (approve_change X t1 t2 IoOk cid who (q, Some c))) =
      (Inr (), (q', Some (c @ entry_text X (approval_entry X t2 cid who (ch_description (cr_change rec)))
        @ [newline] @ entry_text X (commit_entry X t3 cid h who) @ [newline]))) \<and>
    fst (approve_change X t1 t2 IoOk cid who (q, Some c)) = Inr () \<and>
    statuses q' = (statuses q)(cid \<mapsto> Committed) \<and>
    fmlookup (changes q') cid = Some rec' \<and> cr_reviewed_by rec' = Some who \<and> cr_commit_hash rec' = Some h \<and>
    verify_commit_approval G g h w' = Inr v \<and> hac_approved_by v = who \<and> hac_change_id v = cid"
proof -
  have "verify_commit_approval G g h w' =
      Inr \<lparr>hac_change_id = cid, hac_approved_by = who, hac_approval_date = rfc3339_secs X t,
           hac_evidence_url = ch_evidence (cr_change rec), hac_review_link = None\<rparr>"
    using verify_made_commit [OF assms(1,3-8)] assms(9) by simp
  then show ?thesis
    using assms(2)
    by (simp add: approve_change_def mark_committed_def log_approval_def log_commit_def append_entry_def
        statuses_def fun_eq_iff)
qed

lemma rejected_queue_evidence:
  "\<exists>rec. fmlookup (changes rejected_queue) ''c1'' = Some rec \<and> ch_evidence (cr_change rec) = ''url''"
  by (simp add: rejected_queue_def queue_step_def queue_op_defs queue_new_def demo_change_def Let_def split_beta)

theorem reviewed_commit_workflow_witness:
  "\<exists>v. verify_commit_approval demo_git (gateway_new ''.'' 3600) (show_nat 0)
     [(show_nat 0, commit_body json_extern 0 ''fix'' ''human'' ''url'' ''c1'')] = Inr v \<and> hac_approved_by v = ''human''"
proof -
  obtain rec where rec: "fmlookup (changes rejected_queue) ''c1'' = Some rec" "ch_evidence (cr_change rec) = ''url''"
    using rejected_queue_evidence by blast
  have w: "clean ''human''" "clean (rfc3339_secs json_extern 0)" "clean ''url''" "clean ''c1''"
    by (rule clean_word; simp add: ascii_plain_def json_extern_def)+
  have "utf8_valid (commit_body json_extern 0 ''fix'' ''human'' ''url'' ''c1'')" by (rule demo_body_utf8) simp
  then show ?thesis
    using reviewed_commit_workflow [OF demo_git_keeps_message rec(1), unfolded rec(2), OF demo_commit _ w(1,2,3,4) _,
        where g = "gateway_new ''.'' 3600" and msg = "''fix''" and ?t1.0 = 0 and ?t2.0 = 0 and ?t3.0 = 0 and c = "[]"] by auto
qed

section \<open>The life of an artifact\<close>





section \<open>The tests of the repository\<close>

text \<open>
  The model passes the tests of the repository. All 44 unit tests of the three crates and of the verdict
  engine hold in the model, for every clock, whatever the iteration orders of the maps, and
  without a panic, when a digest is 64 hexadecimal digits, case is lowered as documented, the system
  clock fits in 64 bits, and the two audit entries of a test print and parse as documented.
\<close>

lemma repository_tests_hold:
  assumes "digest_is_hex64 X" and "lowers_ascii lower" and "\<And>u. iter_order (uord u) (artifacts u)"
    and "\<And>m. iter_order (tord m) (stored_traces m)" and "0 \<le> sys" and "sys < 2 ^ 64"
    and "prints_test_entries X clk"
  shows "test_artifact_creation (clk 0) (clk 1) \<and> test_invariant_creation \<and> test_tier_serialization \<and>
      test_language_conversion \<and> test_invariant_coverage clk \<and>
    test_universe_creation \<and> test_add_artifact clk \<and> test_query_by_invariant clk \<and>
      test_search_by_name lower uord clk \<and> test_query_by_language clk \<and> test_statistics uord clk \<and>
    test_cvm_gate_process X clk \<and> test_cvm_gate_fails_on_empty_id X clk \<and> test_step_result (clk 0) \<and>
      test_promote clk \<and>
    test_trace_creation X clk \<and> test_trace_id_generation X clk \<and> test_cycle_detection X clk \<and>
      test_symbol_extraction X clk \<and>
    test_event_type_codes \<and> test_partition_paths \<and> test_protocol_handler (clk 0) \<and> test_event_creation (clk 0) \<and>
    test_mermaid_diagram_generation X clk \<and> test_timeline_rendering X clk \<and> test_stream_manager (clk 0) \<and>
      test_emit_and_retrieve_events (clk 0) \<and> test_store_and_retrieve_trace X (clk 0) \<and>
    test_l1_kernel_integration X sys clk \<and> test_l3_policy_integration X clk \<and>
      test_l5_knowledge_integration X logging tord clk \<and> test_erlang_nif_subscribe \<and> test_erlang_nif_challenge \<and>
    test_audit_log_creation X clk \<and> test_audit_entries X clk \<and>
    test_verify_approval_required \<and> test_create_approval_certificate X (clk 0) \<and> test_check_no_auto_commit \<and>
    test_format_review_request X (clk 0) \<and> test_indent_text \<and>
    test_proven_window_predicts_proven file_exists cuda \<and> test_noise_window_predicts_noise file_exists cuda \<and>
      test_governance_command_proven \<and> test_governance_command_noise"
  by (intro conjI manifest_tests index_tests search_test [OF assms(2,3)] gate_tests trace_tests [OF assms(1)]
      protocol_tests streaming_tests integration_tests [OF assms(1,4,5,6)] audit_test_creation
      audit_test_read [OF assms(7)] gateway_tests [OF assms(1)] queue_tests shrewd_tests)

end
